theory Spec2Isabelle
  imports Main "HOL-Library.AList" "HOL-Library.Sublist"
begin

section \<open>JavaScript values\<close>

text \<open>
  \<^verbatim>\<open>src/structures/APIMessage.js\<close> is dynamically typed: the same parameter may hold a
  string, an array, an option bag or an instance of a class, and the code tells them
  apart with \<^verbatim>\<open>typeof\<close>, \<^verbatim>\<open>instanceof\<close> and truthiness. The model therefore works on
  one datatype of JavaScript values. An object carries the class \<^verbatim>\<open>instanceof\<close> asks
  for and its own enumerable properties as an association list in insertion order.
  Numbers are the integer-valued ones (and \<^verbatim>\<open>NaN\<close>), a function is opaque but for its
  \<^verbatim>\<open>name\<close>. Strings are Isabelle strings: a character outside ASCII stands as the bytes
  of its UTF-8 encoding, which is all the same to the code below, whose pattern matching
  and literals are ASCII but for the zero-width space U+200B it inserts.
\<close>

datatype cls =
    PlainObject | MessageEmbed | MessageAttachment | GuildMember | User | Buffer | ArrayBuffer
  | Webhook | WebhookClient | TextChannel | DMChannel | GroupDMChannel

datatype jsval =
    JUndefined
  | JNull
  | JBool bool
  | JNum int
  | JNaN
  | JStr string
  | JFunc string
  | JArr "jsval list"
  | JObj cls "(string \<times> jsval) list"

type_synonym props = "(string \<times> jsval) list"

text \<open>\<^verbatim>\<open>if (v)\<close>, \<^verbatim>\<open>!v\<close>, \<^verbatim>\<open>a || b\<close>, \<^verbatim>\<open>a && b\<close>: JavaScript's \<^verbatim>\<open>ToBoolean\<close>.\<close>

fun truthy :: "jsval \<Rightarrow> bool" where
  "truthy JUndefined = False"
| "truthy JNull = False"
| "truthy (JBool b) = b"
| "truthy (JNum n) = (n \<noteq> 0)"
| "truthy JNaN = False"
| "truthy (JStr s) = (s \<noteq> [])"
| "truthy (JFunc n) = True"
| "truthy (JArr xs) = True"
| "truthy (JObj c fs) = True"

definition js_or :: "jsval \<Rightarrow> jsval \<Rightarrow> jsval" where
  "js_or a b = (if truthy a then a else b)"

text \<open>\<^verbatim>\<open>typeof v === 'object'\<close> holds of \<^verbatim>\<open>null\<close>, of arrays and of every object.\<close>

fun typeof_object :: "jsval \<Rightarrow> bool" where
  "typeof_object JNull = True"
| "typeof_object (JArr xs) = True"
| "typeof_object (JObj c fs) = True"
| "typeof_object v = False"

fun typeof_string :: "jsval \<Rightarrow> bool" where
  "typeof_string (JStr s) = True"
| "typeof_string v = False"

fun typeof_function :: "jsval \<Rightarrow> bool" where
  "typeof_function (JFunc n) = True"
| "typeof_function v = False"

fun instanceof_Array :: "jsval \<Rightarrow> bool" where
  "instanceof_Array (JArr xs) = True"
| "instanceof_Array v = False"

fun instanceof :: "jsval \<Rightarrow> cls \<Rightarrow> bool" where
  "instanceof (JObj c fs) k = (c = k)"
| "instanceof v k = False"

fun elems :: "jsval \<Rightarrow> jsval list" where
  "elems (JArr xs) = xs"
| "elems v = []"

text \<open>
  Reading a property of an object: its own property, \<^verbatim>\<open>undefined\<close> when it has none.
  (The properties read by this file are never inherited ones.)
\<close>

definition field :: "props \<Rightarrow> string \<Rightarrow> jsval" where
  "field fs k = (case map_of fs k of Some v \<Rightarrow> v | None \<Rightarrow> JUndefined)"

text \<open>\<^verbatim>\<open>xs[0]\<close>: \<^verbatim>\<open>undefined\<close> on an empty array.\<close>

fun first :: "jsval list \<Rightarrow> jsval" where
  "first [] = JUndefined"
| "first (x # xs) = x"

subsection \<open>Decimal numerals, for array indices used as property keys\<close>

definition digit :: "nat \<Rightarrow> char" where
  "digit d = ''0123456789'' ! (d mod 10)"

fun show_nat :: "nat \<Rightarrow> string" where
  "show_nat n = (if n < 10 then [digit n] else show_nat (n div 10) @ [digit (n mod 10)])"

declare show_nat.simps [simp del]

subsection \<open>\<^verbatim>\<open>Object.assign\<close>\<close>

text \<open>
  \<^verbatim>\<open>Object.assign(target, ...sources)\<close> copies the own enumerable properties of every
  source, in order, onto the target; a later source overwrites an earlier one, a key the
  target already has keeps its place. \<^verbatim>\<open>null\<close> and \<^verbatim>\<open>undefined\<close> sources are skipped,
  numbers, booleans and functions have no own enumerable property, an array or a string
  has its indices.
\<close>

fun ownProps :: "jsval \<Rightarrow> props" where
  "ownProps (JObj c fs) = fs"
| "ownProps (JArr xs) = map (\<lambda>i. (show_nat i, xs ! i)) [0..<length xs]"
| "ownProps (JStr s) = map (\<lambda>i. (show_nat i, JStr [s ! i])) [0..<length s]"
| "ownProps v = []"

definition assign1 :: "props \<Rightarrow> jsval \<Rightarrow> props" where
  "assign1 tgt src = foldl (\<lambda>t kv. AList.update (fst kv) (snd kv) t) tgt (ownProps src)"

definition assign :: "props \<Rightarrow> jsval list \<Rightarrow> props" where
  "assign tgt srcs = foldl assign1 tgt srcs"

section \<open>Strings\<close>

definition nl :: string where
  "nl = [CHR 0x0A]"

text \<open>The zero-width space U+200B, \<^verbatim>\<open>'\u200b'\<close> in the source, in UTF-8.\<close>

definition zwsp :: string where
  "zwsp = [CHR 0xE2, CHR 0x80, CHR 0x8B]"

fun join :: "string \<Rightarrow> string list \<Rightarrow> string" where
  "join sep [] = []"
| "join sep [x] = x"
| "join sep (x # y # ys) = x @ sep @ join sep (y # ys)"

definition show_int :: "int \<Rightarrow> string" where
  "show_int i = (if i < 0 then CHR ''-'' # show_nat (nat (- i)) else show_nat (nat i))"

text \<open>
  \<^verbatim>\<open>ToString\<close>, as a template literal and \<^verbatim>\<open>parseInt\<close> apply it. What an object or a
  function prints as is its class's business (a \<^verbatim>\<open>toString\<close> method, \<^verbatim>\<open>[object Object]\<close>
  without one), so it is the parameter \<open>ots\<close>. A number prints in decimal, which is
  what JavaScript does below \<open>10\<^sup>2\<^sup>1\<close>.
\<close>

fun js_toString :: "(jsval \<Rightarrow> string) \<Rightarrow> jsval \<Rightarrow> string" where
  "js_toString ots JUndefined = ''undefined''"
| "js_toString ots JNull = ''null''"
| "js_toString ots (JBool b) = (if b then ''true'' else ''false'')"
| "js_toString ots (JNum n) = show_int n"
| "js_toString ots JNaN = ''NaN''"
| "js_toString ots (JStr s) = s"
| "js_toString ots (JFunc n) = ots (JFunc n)"
| "js_toString ots (JArr xs) =
     join '','' (map (\<lambda>x. if x = JUndefined \<or> x = JNull then [] else js_toString ots x) xs)"
| "js_toString ots (JObj c fs) = ots (JObj c fs)"

subsection \<open>\<^verbatim>\<open>parseInt\<close>\<close>

text \<open>
  \<^verbatim>\<open>parseInt(v)\<close> with no radix: the argument as a string, leading white space dropped,
  an optional sign, an optional \<^verbatim>\<open>0x\<close> for base sixteen, then the longest run of digits
  of the base; \<^verbatim>\<open>NaN\<close> when that run is empty. The white space is JavaScript's, each
  code point in UTF-8. The value is exact here; JavaScript rounds one above \<open>2\<^sup>5\<^sup>3\<close> to
  the nearest double, which changes neither its sign nor whether it is \<^verbatim>\<open>NaN\<close>.
\<close>

definition white_space :: "string list" where
  "white_space =
     [[CHR 0x09], [CHR 0x0A], [CHR 0x0B], [CHR 0x0C], [CHR 0x0D], [CHR 0x20],
      [CHR 0xC2, CHR 0xA0], [CHR 0xE1, CHR 0x9A, CHR 0x80],
      [CHR 0xE2, CHR 0x80, CHR 0x80], [CHR 0xE2, CHR 0x80, CHR 0x81],
      [CHR 0xE2, CHR 0x80, CHR 0x82], [CHR 0xE2, CHR 0x80, CHR 0x83],
      [CHR 0xE2, CHR 0x80, CHR 0x84], [CHR 0xE2, CHR 0x80, CHR 0x85],
      [CHR 0xE2, CHR 0x80, CHR 0x86], [CHR 0xE2, CHR 0x80, CHR 0x87],
      [CHR 0xE2, CHR 0x80, CHR 0x88], [CHR 0xE2, CHR 0x80, CHR 0x89],
      [CHR 0xE2, CHR 0x80, CHR 0x8A], [CHR 0xE2, CHR 0x80, CHR 0xA8],
      [CHR 0xE2, CHR 0x80, CHR 0xA9], [CHR 0xE2, CHR 0x80, CHR 0xAF],
      [CHR 0xE2, CHR 0x81, CHR 0x9F], [CHR 0xE3, CHR 0x80, CHR 0x80],
      [CHR 0xEF, CHR 0xBB, CHR 0xBF]]"

fun trimStart :: "string \<Rightarrow> string" where
  "trimStart [] = []"
| "trimStart (c # cs) =
     (case find (\<lambda>w. prefix w (c # cs)) white_space of
        Some w \<Rightarrow> trimStart (drop (length w - 1) cs)
      | None \<Rightarrow> c # cs)"

definition digit_value :: "char \<Rightarrow> nat" where
  "digit_value c =
     (let n = (of_char c :: nat) in
      if 48 \<le> n \<and> n \<le> 57 then n - 48
      else if 97 \<le> n \<and> n \<le> 122 then n - 87
      else if 65 \<le> n \<and> n \<le> 90 then n - 55
      else 36)"

definition parseInt_string :: "string \<Rightarrow> jsval" where
  "parseInt_string input =
     (let s = trimStart input;
          negative = prefix ''-'' s;
          s1 = (if prefix ''-'' s \<or> prefix ''+'' s then drop 1 s else s);
          hex = (prefix ''0x'' s1 \<or> prefix ''0X'' s1);
          radix = (if hex then 16 else 10);
          s2 = (if hex then drop 2 s1 else s1);
          ds = takeWhile (\<lambda>c. digit_value c < radix) s2;
          n = int (foldl (\<lambda>a c. a * radix + digit_value c) 0 ds)
      in if ds = [] then JNaN else JNum (if negative then - n else n))"

subsection \<open>The mention-escaping replacement\<close>

text \<open>
  \<^verbatim>\<open>content.replace(/@(everyone|here)/g, '@\u200b$1')\<close>: the string is scanned from the
  left; where a match starts, the replacement is written and the scan goes on behind
  the match; elsewhere one character is copied. The first alternative is tried first.
\<close>

fun escapeMentions :: "string \<Rightarrow> string" where
  "escapeMentions [] = []"
| "escapeMentions (c # cs) =
    (if c = CHR ''@'' \<and> prefix ''everyone'' cs
       then ''@'' @ zwsp @ ''everyone'' @ escapeMentions (drop 8 cs)
     else if c = CHR ''@'' \<and> prefix ''here'' cs
       then ''@'' @ zwsp @ ''here'' @ escapeMentions (drop 4 cs)
     else c # escapeMentions cs)"

text \<open>
  The specification's wording of the same step, for comparison: a zero-width character
  goes in behind every \<^verbatim>\<open>@\<close> at which an occurrence of \<^verbatim>\<open>@everyone\<close> or \<^verbatim>\<open>@here\<close> starts,
  and nothing else changes.
\<close>

fun insert_zero_width :: "string \<Rightarrow> string" where
  "insert_zero_width [] = []"
| "insert_zero_width (c # cs) =
    (if c = CHR ''@'' \<and> (prefix ''everyone'' cs \<or> prefix ''here'' cs)
       then CHR ''@'' # zwsp @ insert_zero_width cs
     else c # insert_zero_width cs)"

section \<open>Input normalisation\<close>

subsection \<open>\<^verbatim>\<open>partitionMessageAdditions\<close>\<close>

text \<open>
  The loop of \<^verbatim>\<open>partitionMessageAdditions\<close>, with its two arrays as accumulators:
  \<^verbatim>\<open>push\<close> appends at the end.
\<close>

fun partition_loop :: "jsval list \<Rightarrow> jsval list \<Rightarrow> jsval list \<Rightarrow> jsval list \<times> jsval list" where
  "partition_loop [] embeds files = (embeds, files)"
| "partition_loop (item # items) embeds files =
     (if instanceof item MessageEmbed then partition_loop items (embeds @ [item]) files
      else if instanceof item MessageAttachment then partition_loop items embeds (files @ [item])
      else partition_loop items embeds files)"

definition partitionMessageAdditions :: "jsval list \<Rightarrow> jsval list \<times> jsval list" where
  "partitionMessageAdditions items = partition_loop items [] []"

subsection \<open>\<^verbatim>\<open>transformOptions\<close>\<close>

text \<open>
  \<^verbatim>\<open>transformOptions(content, options, extra = {}, isWebhook = false)\<close>. An argument left
  out is \<^verbatim>\<open>undefined\<close>; the default of \<^verbatim>\<open>extra\<close> applies to \<^verbatim>\<open>undefined\<close> only. Every
  branch returns the target of an \<^verbatim>\<open>Object.assign\<close> on a fresh object literal, so the
  result is a plain object, given here by its properties.
\<close>

definition transformOptions :: "jsval \<Rightarrow> jsval \<Rightarrow> jsval \<Rightarrow> bool \<Rightarrow> props" where
  "transformOptions content0 options0 extra0 isWebhook =
    (let extra = (if extra0 = JUndefined then JObj PlainObject [] else extra0);
         shift = (\<not> truthy options0 \<and> typeof_object content0 \<and> \<not> instanceof_Array content0);
         options1 = (if shift then content0 else options0);
         content = (if shift then JStr [] else content0);
         options = (if truthy options1 then options1 else JObj PlainObject [])
     in
      if instanceof options MessageEmbed then
        assign (if isWebhook then [(''content'', content), (''embeds'', JArr [options])]
                else [(''content'', content), (''embed'', options)]) [extra]
      else if instanceof options MessageAttachment then
        assign [(''content'', content), (''files'', JArr [options])] [extra]
      else if instanceof_Array options then
        (case partitionMessageAdditions (elems options) of
           (embeds, files) \<Rightarrow>
             assign (if isWebhook
                     then [(''content'', content), (''embeds'', JArr embeds), (''files'', JArr files)]
                     else [(''content'', content), (''embed'', first embeds), (''files'', JArr files)])
                    [extra])
      else
        (case (if instanceof_Array content then partitionMessageAdditions (elems content)
               else ([], [])) of
           (embeds, files) \<Rightarrow>
             if instanceof_Array content \<and> \<not> (embeds = [] \<and> files = []) then
               assign (if isWebhook then [(''embeds'', JArr embeds), (''files'', JArr files)]
                       else [(''embed'', first embeds), (''files'', JArr files)]) [extra]
             else assign [(''content'', content)] [options, extra]))"

section \<open>The message and its collaborators\<close>

text \<open>
  What the code can throw. \<open>InvalidNonce\<close> is the \<^verbatim>\<open>RangeError('MESSAGE_NONCE_TYPE')\<close> of
  \<^verbatim>\<open>resolveData\<close>, \<open>TypeError\<close> is JavaScript's own (a property of \<^verbatim>\<open>null\<close> or
  \<^verbatim>\<open>undefined\<close>, a spread of a value that cannot be iterated); the others are the
  collaborators' failures, under the names the specification gives them.
\<close>

datatype error =
  InvalidNonce | TypeError | InvalidMentionTarget | MessageTooLong | FileResolutionError

text \<open>
  The functions of other files of the repository that \<^verbatim>\<open>APIMessage.js\<close> calls, and the
  one constant it imports, as parameters of the model:
  \<^verbatim>\<open>Util.resolveString\<close>, \<^verbatim>\<open>Util.escapeMarkdown\<close>, \<^verbatim>\<open>Util.splitMessage\<close>,
  \<^verbatim>\<open>target.client.users.resolveID\<close>, \<^verbatim>\<open>new MessageEmbed(e)._apiTransform()\<close>,
  \<^verbatim>\<open>Util.basename\<close>, \<^verbatim>\<open>DataResolver.resolveFile\<close> (whose promise fulfils or rejects),
  what \<^verbatim>\<open>ToString\<close> makes of an object, and \<^verbatim>\<open>browser\<close> of \<^verbatim>\<open>util/Constants\<close>.
\<close>

record env =
  resolveString :: "jsval \<Rightarrow> string"
  escapeMarkdown :: "string \<Rightarrow> bool \<Rightarrow> string"
  splitMessage :: "string \<Rightarrow> props \<Rightarrow> error + jsval"
  resolveID :: "jsval \<Rightarrow> error + jsval"
  apiTransform :: "jsval \<Rightarrow> jsval"
  basename :: "jsval \<Rightarrow> jsval"
  dataResolveFile :: "jsval \<Rightarrow> error + jsval"
  objectToString :: "jsval \<Rightarrow> string"
  browser :: bool

definition str :: "env \<Rightarrow> jsval \<Rightarrow> string" where
  "str U v = js_toString (objectToString U) v"

text \<open>
  Of the target the code reads its class, \<^verbatim>\<open>target.type\<close>, \<^verbatim>\<open>target.name\<close> and
  \<^verbatim>\<open>target.client.options.disableEveryone\<close>.
\<close>

record message_target =
  tclass :: cls
  ttype :: jsval
  tname :: jsval
  clientDisableEveryone :: jsval

text \<open>
  An \<^verbatim>\<open>APIMessage\<close>: \<^verbatim>\<open>this.target\<close> and \<^verbatim>\<open>this.options\<close>. The options are an object
  (\<^verbatim>\<open>create\<close> passes what \<^verbatim>\<open>transformOptions\<close> returned), given by its properties.
\<close>

record api_message =
  target :: message_target
  options :: props

definition isWebhook :: "api_message \<Rightarrow> bool" where
  "isWebhook m = (tclass (target m) = Webhook \<or> tclass (target m) = WebhookClient)"

definition isUser :: "api_message \<Rightarrow> bool" where
  "isUser m = (tclass (target m) = User \<or> tclass (target m) = GuildMember)"

text \<open>
  Reading a property of any value: a \<^verbatim>\<open>TypeError\<close> on \<^verbatim>\<open>null\<close> and \<^verbatim>\<open>undefined\<close>. (The
  properties read below are \<^verbatim>\<open>files\<close>, \<^verbatim>\<open>pipe\<close>, \<^verbatim>\<open>path\<close>, \<^verbatim>\<open>attachment\<close>, \<^verbatim>\<open>name\<close> and
  \<^verbatim>\<open>nickname\<close>; of these a string, a number, a boolean or an array has none, a function
  its \<^verbatim>\<open>name\<close>.)
\<close>

fun getProp :: "jsval \<Rightarrow> string \<Rightarrow> error + jsval" where
  "getProp JUndefined k = Inl TypeError"
| "getProp JNull k = Inl TypeError"
| "getProp (JObj c fs) k = Inr (field fs k)"
| "getProp (JFunc n) k = Inr (if k = ''name'' then JStr n else JUndefined)"
| "getProp v k = Inr JUndefined"

text \<open>
  \<^verbatim>\<open>...v\<close> in an argument list: the elements of an array, the characters of a string
  (one string for each; a character outside ASCII, several bytes here, would come apart),
  a \<^verbatim>\<open>TypeError\<close> for a value that cannot be iterated.
\<close>

fun spread :: "jsval \<Rightarrow> error + jsval list" where
  "spread (JArr xs) = Inr xs"
| "spread (JStr s) = Inr (map (\<lambda>c. JStr [c]) s)"
| "spread v = Inl TypeError"

section \<open>\<^verbatim>\<open>makeContent\<close>\<close>

definition isSplit :: "props \<Rightarrow> bool" where
  "isSplit opts = (field opts ''split'' \<noteq> JUndefined \<and> field opts ''split'' \<noteq> JBool False)"

definition isCode :: "props \<Rightarrow> bool" where
  "isCode opts = (field opts ''code'' \<noteq> JUndefined \<and> field opts ''code'' \<noteq> JBool False)"

definition fence :: string where
  "fence = ''```''"

text \<open>
  Lines 61 to 68: the mention prefix, and \<^verbatim>\<open>splitOptions\<close> with the prefix put before its
  \<^verbatim>\<open>prepend\<close> when the message is split. The reply is an object where its \<^verbatim>\<open>nickname\<close>
  is read (it is an instance of \<^verbatim>\<open>GuildMember\<close>).
\<close>

definition mentionStep :: "env \<Rightarrow> api_message \<Rightarrow> props \<Rightarrow> error + (string \<times> props)" where
  "mentionStep U m splitOptions =
     (let reply = field (options m) ''reply'' in
      if truthy reply \<and> \<not> isUser m \<and> ttype (target m) \<noteq> JStr ''dm'' then
        (case resolveID U reply of
           Inl e \<Rightarrow> Inl e
         | Inr ident \<Rightarrow>
             (let mentionPart =
                    ''<@'' @ (if instanceof reply GuildMember
                                 \<and> truthy (field (ownProps reply) ''nickname'')
                              then ''!'' else [])
                    @ str U ident @ ''>, ''
              in Inr (mentionPart,
                      if isSplit (options m)
                      then AList.update ''prepend''
                             (JStr (mentionPart
                                    @ str U (js_or (field splitOptions ''prepend'') (JStr []))))
                             splitOptions
                      else splitOptions)))
      else Inr ([], splitOptions))"

text \<open>Lines 71 to 80: the code fence, or else the mention prefix before the content.\<close>

definition codeName :: "props \<Rightarrow> string" where
  "codeName opts = (case field opts ''code'' of JStr s \<Rightarrow> s | _ \<Rightarrow> [])"

definition fenceStep :: "env \<Rightarrow> props \<Rightarrow> string \<Rightarrow> string \<Rightarrow> props \<Rightarrow> string \<times> props" where
  "fenceStep U opts mentionPart content splitOptions =
     (if isCode opts then
        (let fenced = mentionPart @ fence @ codeName opts @ nl
                      @ escapeMarkdown U content True @ nl @ fence;
             prepended = AList.update ''prepend''
                           (JStr (str U (js_or (field splitOptions ''prepend'') (JStr []))
                                  @ fence @ codeName opts @ nl))
                           splitOptions;
             appended = AList.update ''append''
                          (JStr (nl @ fence
                                 @ str U (js_or (field prepended ''append'') (JStr []))))
                          prepended
         in (fenced, if isSplit opts then appended else splitOptions))
      else if mentionPart = [] then (content, splitOptions)
      else (mentionPart @ content, splitOptions))"

text \<open>
  Lines 56 to 88, up to the call of the splitter: either the content to return, or the
  two arguments \<^verbatim>\<open>Util.splitMessage\<close> is called with.
\<close>

datatype formatted = Whole string | ToSplit string props

fun text_of :: "formatted \<Rightarrow> string" where
  "text_of (Whole s) = s"
| "text_of (ToSplit s so) = s"

fun map_text :: "(string \<Rightarrow> string) \<Rightarrow> formatted \<Rightarrow> formatted" where
  "map_text g (Whole s) = Whole (g s)"
| "map_text g (ToSplit s so) = ToSplit (g s) so"

definition disableEveryone :: "api_message \<Rightarrow> jsval" where
  "disableEveryone m =
     (if field (options m) ''disableEveryone'' = JUndefined
      then clientDisableEveryone (target m)
      else field (options m) ''disableEveryone'')"

text \<open>Line 56: the content as a string, \<^verbatim>\<open>''\<close> for a content that is \<^verbatim>\<open>null\<close> or \<^verbatim>\<open>undefined\<close>.\<close>

definition contentString :: "env \<Rightarrow> props \<Rightarrow> string" where
  "contentString U opts =
     resolveString U
       (if field opts ''content'' = JUndefined \<or> field opts ''content'' = JNull
        then JStr [] else field opts ''content'')"

text \<open>Line 59: \<^verbatim>\<open>Object.assign({}, this.options.split)\<close> when the message is split.\<close>

definition splitOptionsOf :: "props \<Rightarrow> props" where
  "splitOptionsOf opts = (if isSplit opts then assign1 [] (field opts ''split'') else [])"

definition formatContent :: "env \<Rightarrow> api_message \<Rightarrow> error + formatted" where
  "formatContent U m =
     (case mentionStep U m (splitOptionsOf (options m)) of
        Inl e \<Rightarrow> Inl e
      | Inr (mentionPart, splitOptions1) \<Rightarrow>
          if contentString U (options m) = [] \<and> mentionPart = []
          then Inr (Whole (contentString U (options m)))
          else
            (case fenceStep U (options m) mentionPart (contentString U (options m))
                    splitOptions1 of
               (content1, splitOptions2) \<Rightarrow>
                 (let content2 = (if truthy (disableEveryone m)
                                  then escapeMentions content1 else content1)
                  in Inr (if isSplit (options m) then ToSplit content2 splitOptions2
                          else Whole content2))))"

definition makeContent :: "env \<Rightarrow> api_message \<Rightarrow> error + jsval" where
  "makeContent U m =
     (case formatContent U m of
        Inl e \<Rightarrow> Inl e
      | Inr (Whole s) \<Rightarrow> Inr (JStr s)
      | Inr (ToSplit s splitOptions) \<Rightarrow> splitMessage U s splitOptions)"

section \<open>\<^verbatim>\<open>resolveData\<close>\<close>

record payload =
  p_content :: jsval
  p_tts :: bool
  p_nonce :: jsval
  p_embed :: jsval
  p_embeds :: "jsval list"
  p_username :: jsval
  p_avatar_url :: jsval

text \<open>The \<^verbatim>\<open>embedLikes\<close> of \<^verbatim>\<open>resolveData\<close> and of \<^verbatim>\<open>resolveFiles\<close>.\<close>

definition embedLikes :: "api_message \<Rightarrow> error + jsval list" where
  "embedLikes m =
     (if isWebhook m then
        (if truthy (field (options m) ''embeds'') then spread (field (options m) ''embeds'')
         else Inr [])
      else if truthy (field (options m) ''embed'') then Inr [field (options m) ''embed'']
      else Inr [])"

definition parseInt :: "env \<Rightarrow> jsval \<Rightarrow> jsval" where
  "parseInt U v = parseInt_string (str U v)"

text \<open>\<^verbatim>\<open>isNaN(nonce) || nonce < 0\<close>, of a result of \<^verbatim>\<open>parseInt\<close>.\<close>

fun nan_or_negative :: "jsval \<Rightarrow> bool" where
  "nan_or_negative (JNum n) = (n < 0)"
| "nan_or_negative v = True"

definition resolveNonce :: "env \<Rightarrow> api_message \<Rightarrow> error + jsval" where
  "resolveNonce U m =
     (if field (options m) ''nonce'' = JUndefined then Inr JUndefined
      else if nan_or_negative (parseInt U (field (options m) ''nonce'')) then Inl InvalidNonce
      else Inr (parseInt U (field (options m) ''nonce'')))"

definition resolveData :: "env \<Rightarrow> api_message \<Rightarrow> error + payload" where
  "resolveData U m =
     (case makeContent U m of
        Inl e \<Rightarrow> Inl e
      | Inr content \<Rightarrow>
          (case resolveNonce U m of
             Inl e \<Rightarrow> Inl e
           | Inr nonce \<Rightarrow>
               (case embedLikes m of
                  Inl e \<Rightarrow> Inl e
                | Inr likes \<Rightarrow>
                    Inr \<lparr> p_content = content,
                          p_tts = truthy (field (options m) ''tts''),
                          p_nonce = nonce,
                          p_embed = (if field (options m) ''embed'' = JNull then JNull
                                     else first (map (apiTransform U) likes)),
                          p_embeds = map (apiTransform U) likes,
                          p_username = (if isWebhook m
                                        then js_or (field (options m) ''username'')
                                               (tname (target m))
                                        else JUndefined),
                          p_avatar_url = (if isWebhook m \<and> truthy (field (options m) ''avatarURL'')
                                          then field (options m) ''avatarURL''
                                          else JUndefined) \<rparr>)))"

section \<open>\<^verbatim>\<open>resolveFiles\<close>\<close>

text \<open>
  Lines 156 to 160, the loop over \<^verbatim>\<open>embedLikes\<close> that pushes every embed's files onto
  \<^verbatim>\<open>fileLikes\<close>.
\<close>

fun embedFiles_loop :: "jsval list \<Rightarrow> jsval list \<Rightarrow> error + jsval list" where
  "embedFiles_loop [] fileLikes = Inr fileLikes"
| "embedFiles_loop (like # rest) fileLikes =
     (case getProp like ''files'' of
        Inl e \<Rightarrow> Inl e
      | Inr fs \<Rightarrow>
          if truthy fs then
            (case spread fs of
               Inl e \<Rightarrow> Inl e
             | Inr xs \<Rightarrow> embedFiles_loop rest (fileLikes @ xs))
          else embedFiles_loop rest fileLikes)"

text \<open>Lines 143 to 160: the references \<^verbatim>\<open>resolveFiles\<close> finds, in the order it finds them.\<close>

definition fileLikes :: "api_message \<Rightarrow> error + jsval list" where
  "fileLikes m =
     (case embedLikes m of
        Inl e \<Rightarrow> Inl e
      | Inr likes \<Rightarrow>
          (case (if truthy (field (options m) ''files'')
                 then spread (field (options m) ''files'') else Inr []) of
             Inl e \<Rightarrow> Inl e
           | Inr own \<Rightarrow> embedFiles_loop likes own))"

record file_descriptor =
  fd_attachment :: jsval
  fd_name :: jsval
  fd_file :: jsval

definition findName :: "env \<Rightarrow> jsval \<Rightarrow> error + jsval" where
  "findName U thing =
     (if typeof_string thing then Inr (basename U thing)
      else (case getProp thing ''path'' of
              Inl e \<Rightarrow> Inl e
            | Inr p \<Rightarrow> if truthy p then Inr (basename U p) else Inr (JStr ''file.jpg'')))"

text \<open>
  \<^verbatim>\<open>resolveFile\<close> is an \<^verbatim>\<open>async\<close> function: what it throws, and what the awaited
  \<^verbatim>\<open>DataResolver.resolveFile\<close> rejects with, rejects its promise (\<open>Inl\<close>); what it
  returns fulfils it (\<open>Inr\<close>).
\<close>

definition ownAttachment :: "env \<Rightarrow> jsval \<Rightarrow> error + bool" where
  "ownAttachment U fileLike =
     (if typeof_string fileLike
         \<or> instanceof fileLike (if browser U then ArrayBuffer else Buffer) then Inr True
      else (case getProp fileLike ''pipe'' of
              Inl e \<Rightarrow> Inl e
            | Inr p \<Rightarrow> Inr (typeof_function p)))"

definition attachment_and_name :: "env \<Rightarrow> jsval \<Rightarrow> error + (jsval \<times> jsval)" where
  "attachment_and_name U fileLike =
     (case ownAttachment U fileLike of
        Inl e \<Rightarrow> Inl e
      | Inr own \<Rightarrow>
          if own then
            (case findName U fileLike of Inl e \<Rightarrow> Inl e | Inr n \<Rightarrow> Inr (fileLike, n))
          else
            (case getProp fileLike ''attachment'' of
               Inl e \<Rightarrow> Inl e
             | Inr a \<Rightarrow>
                 (case getProp fileLike ''name'' of
                    Inl e \<Rightarrow> Inl e
                  | Inr n \<Rightarrow>
                      if truthy n then Inr (a, n)
                      else (case findName U a of Inl e \<Rightarrow> Inl e | Inr n' \<Rightarrow> Inr (a, n')))))"

definition resolveFile :: "env \<Rightarrow> jsval \<Rightarrow> error + file_descriptor" where
  "resolveFile U fileLike =
     (case attachment_and_name U fileLike of
        Inl e \<Rightarrow> Inl e
      | Inr (a, n) \<Rightarrow>
          (case dataResolveFile U a of
             Inl e \<Rightarrow> Inl e
           | Inr resource \<Rightarrow> Inr \<lparr> fd_attachment = a, fd_name = n, fd_file = resource \<rparr>))"

subsection \<open>\<^verbatim>\<open>Promise.all\<close>\<close>

text \<open>
  \<^verbatim>\<open>Promise.all\<close> keeps one slot per input promise. When the promise at index \<open>i\<close>
  fulfils, its value goes into slot \<open>i\<close>, and the result fulfils with the slots once
  none is empty; the first promise to reject rejects the result. The order in which the
  promises settle is not the program's to choose: it is the parameter \<open>sched\<close>, the
  indices in the order of settling. With no input the result fulfils at once; while a
  promise has not settled and none has rejected it is pending.
\<close>

datatype 'a promise_result = Fulfilled 'a | Rejected error | Pending

fun collect :: "'a option list \<Rightarrow> 'a list option" where
  "collect [] = Some []"
| "collect (None # slots) = None"
| "collect (Some v # slots) = (case collect slots of None \<Rightarrow> None | Some vs \<Rightarrow> Some (v # vs))"

fun settle :: "nat list \<Rightarrow> (error + 'a) list \<Rightarrow> 'a option list \<Rightarrow> 'a list promise_result" where
  "settle [] ps slots = Pending"
| "settle (i # sched) ps slots =
     (if i < length ps then
        (case ps ! i of
           Inl e \<Rightarrow> Rejected e
         | Inr v \<Rightarrow>
             (case collect (slots[i := Some v]) of
                Some vs \<Rightarrow> Fulfilled vs
              | None \<Rightarrow> settle sched ps (slots[i := Some v])))
      else settle sched ps slots)"

definition promise_all :: "nat list \<Rightarrow> (error + 'a) list \<Rightarrow> 'a list promise_result" where
  "promise_all sched ps =
     (if ps = [] then Fulfilled [] else settle sched ps (replicate (length ps) None))"

text \<open>
  \<^verbatim>\<open>resolveFiles\<close>: \<open>Inl\<close> when collecting the references throws, else the promise
  \<^verbatim>\<open>Promise.all(fileLikes.map(f => this.constructor.resolveFile(f)))\<close>.
\<close>

definition resolveFiles ::
  "env \<Rightarrow> nat list \<Rightarrow> api_message \<Rightarrow> error + file_descriptor list promise_result" where
  "resolveFiles U sched m =
     (case fileLikes m of
        Inl e \<Rightarrow> Inl e
      | Inr likes \<Rightarrow> Inr (promise_all sched (map (resolveFile U) likes)))"

section \<open>\<^verbatim>\<open>create\<close>\<close>

definition create :: "message_target \<Rightarrow> jsval \<Rightarrow> jsval \<Rightarrow> jsval \<Rightarrow> api_message" where
  "create tgt content opts extra =
     \<lparr> target = tgt,
       options = transformOptions content opts extra
                   (tclass tgt = Webhook \<or> tclass tgt = WebhookClient) \<rparr>"

section \<open>The collaborators as the specification describes them\<close>

text \<open>
  The files of the collaborators are not part of the sources at hand. The theorems
  below hold for every collaborator, or say what they ask of one. The definitions of
  this section follow the specification's words and serve to apply the theorems to
  concrete messages.
\<close>

text \<open>
  Modelled from the spec: \<^verbatim>\<open>Util.resolveString\<close> is missing. Section 4.2, step 1:
  ``Coerce content to string''.
\<close>

definition spec_resolveString :: "jsval \<Rightarrow> string" where
  "spec_resolveString v = js_toString (\<lambda>x. ''[object Object]'') v"

text \<open>
  Modelled from the spec: \<^verbatim>\<open>Util.escapeMarkdown\<close> is missing. Section 4.2, step 3a:
  ``escaping backtick-sequences inside the body''. A run of three backticks is broken
  by a zero-width space behind its first backtick.
\<close>

fun spec_escapeMarkdown :: "string \<Rightarrow> bool \<Rightarrow> string" where
  "spec_escapeMarkdown [] onlyCodeBlock = []"
| "spec_escapeMarkdown (c # cs) onlyCodeBlock =
     (if c = CHR 0x60 \<and> prefix [CHR 0x60, CHR 0x60] cs
      then [CHR 0x60] @ zwsp @ [CHR 0x60, CHR 0x60] @ spec_escapeMarkdown (drop 2 cs) onlyCodeBlock
      else c # spec_escapeMarkdown cs onlyCodeBlock)"

text \<open>
  Modelled from the spec: \<^verbatim>\<open>users.resolveID\<close> is missing. Section 6: ``a method to
  resolve a raw id from a loosely-typed reference (id string, or an object carrying an
  id)''; section 4.2, step 2: ``fails with InvalidMentionTarget if unresolvable''.
\<close>

fun spec_resolveID :: "jsval \<Rightarrow> error + jsval" where
  "spec_resolveID (JStr s) = Inr (JStr s)"
| "spec_resolveID (JObj c fs) =
     (if typeof_string (field fs ''id'') then Inr (field fs ''id'') else Inl InvalidMentionTarget)"
| "spec_resolveID v = Inl InvalidMentionTarget"

text \<open>
  Modelled from the spec: \<^verbatim>\<open>MessageEmbed\<close> is missing. Section 6: the rich-content item
  ``exposes toWireShape() -> plain-object''. The plain object has the item's properties.
\<close>

definition spec_apiTransform :: "jsval \<Rightarrow> jsval" where
  "spec_apiTransform e = JObj PlainObject (ownProps e)"

text \<open>
  Modelled from the spec: \<^verbatim>\<open>Util.basename\<close> is missing. Section 4.4: the display name
  is derived ``from a string path''. \<open>last_segment\<close> reads a path from the left and keeps
  what stands behind its last slash.
\<close>

fun last_segment :: "string \<Rightarrow> string \<Rightarrow> string" where
  "last_segment [] seg = seg"
| "last_segment (c # cs) seg =
     (if c = CHR ''/'' then last_segment cs [] else last_segment cs (seg @ [c]))"

text \<open>
  Modelled from the spec: \<^verbatim>\<open>Util.basename\<close> is missing. The name derived from a string
  path is its last segment; any other value is handed back as it is.
\<close>

fun spec_basename :: "jsval \<Rightarrow> jsval" where
  "spec_basename (JStr s) = JStr (last_segment s [])"
| "spec_basename v = v"

text \<open>
  Modelled from the spec: \<^verbatim>\<open>DataResolver.resolveFile\<close> is missing. Section 6: ``given a
  path, URL, in-memory buffer, or stream-like reference, asynchronously produces a byte
  resource (or fails with a resolution error)''.
\<close>

fun spec_dataResolveFile :: "jsval \<Rightarrow> error + jsval" where
  "spec_dataResolveFile (JStr s) = Inr (JObj Buffer [(''source'', JStr s)])"
| "spec_dataResolveFile (JObj c fs) =
     (if c = Buffer \<or> typeof_function (field fs ''pipe'') then Inr (JObj c fs)
      else Inl FileResolutionError)"
| "spec_dataResolveFile v = Inl FileResolutionError"

text \<open>
  The configured \<^verbatim>\<open>prepend\<close> or \<^verbatim>\<open>append\<close> of split options: the string under that key,
  the empty string when there is none.
\<close>

definition affix :: "props \<Rightarrow> string \<Rightarrow> string" where
  "affix splitOptions k = (case field splitOptions k of JStr s \<Rightarrow> s | _ \<Rightarrow> [])"

text \<open>
  Modelled from the spec: \<^verbatim>\<open>Util.splitMessage\<close> is missing. Section 4.2, step 5: the
  ``default behavior splits on newline boundaries''. \<open>lines_from\<close> cuts a text behind
  every newline, so that each line keeps its newline and the lines, put together, are
  the text.
\<close>

fun lines_from :: "string \<Rightarrow> string \<Rightarrow> string list" where
  "lines_from [] line = (if line = [] then [] else [line])"
| "lines_from (c # cs) line =
     (if c = CHR 0x0A then (line @ [c]) # lines_from cs [] else lines_from cs (line @ [c]))"

text \<open>
  Modelled from the spec: \<^verbatim>\<open>Util.splitMessage\<close> is missing. Section 4.2, step 5: ``no
  chunk exceeds the configured character limit''; ``fails with MessageTooLong [...] when
  a single atomic line cannot be divided and still exceeds the limit''. \<open>pack\<close> fills a
  piece with whole lines while they fit into the room a chunk has, and fails on a line
  that is longer than the room.
\<close>

fun pack :: "nat \<Rightarrow> string list \<Rightarrow> string \<Rightarrow> error + string list" where
  "pack room [] piece = Inr (if piece = [] then [] else [piece])"
| "pack room (l # ls) piece =
     (if room < length l then Inl MessageTooLong
      else if piece = [] \<or> length piece + length l \<le> room then pack room ls (piece @ l)
      else (case pack room ls l of Inl e \<Rightarrow> Inl e | Inr pieces \<Rightarrow> Inr (piece # pieces)))"

text \<open>
  Modelled from the spec: \<^verbatim>\<open>Util.splitMessage\<close> is missing. Section 4.2, step 5:
  ``divide the string into an ordered, finite sequence of chunks such that no chunk
  exceeds the configured character limit; default behavior splits on newline boundaries
  [...]; apply the configured prepend/append to every chunk. Splitting fails with
  MessageTooLong [...] when a single atomic line cannot be divided and still exceeds the
  limit''; section 8: concatenating the chunks, prepend and append stripped,
  ``reconstructs the original content exactly''. The limit is the configuration's
  \<^verbatim>\<open>maxLength\<close>, 2000 without one; the room of a chunk is the limit less the prepend and
  the append. The mode that cuts inside a line is left out.
\<close>

definition spec_splitMessage :: "string \<Rightarrow> props \<Rightarrow> error + jsval" where
  "spec_splitMessage text splitOptions =
     (let pre = affix splitOptions ''prepend'';
          app = affix splitOptions ''append'';
          limit = (case field splitOptions ''maxLength'' of JNum n \<Rightarrow> nat n | _ \<Rightarrow> 2000)
      in case pack (limit - (length pre + length app)) (lines_from text []) [] of
           Inl e \<Rightarrow> Inl e
         | Inr pieces \<Rightarrow> Inr (JArr (map (\<lambda>p. JStr (pre @ p @ app)) pieces)))"

text \<open>The collaborators of the specification, together.\<close>

definition spec_env :: env where
  "spec_env =
     \<lparr> resolveString = spec_resolveString,
       escapeMarkdown = spec_escapeMarkdown,
       splitMessage = spec_splitMessage,
       resolveID = spec_resolveID,
       apiTransform = spec_apiTransform,
       basename = spec_basename,
       dataResolveFile = spec_dataResolveFile,
       objectToString = (\<lambda>x. ''[object Object]''),
       browser = False \<rparr>"

text \<open>
  What the specification says of every splitter: each chunk is a piece of the text
  between the configured prepend and append.
\<close>

definition wraps_every_chunk :: "(string \<Rightarrow> props \<Rightarrow> error + jsval) \<Rightarrow> bool" where
  "wraps_every_chunk split =
     (\<forall>text splitOptions r. split text splitOptions = Inr r \<longrightarrow>
        (\<exists>pieces. r = JArr (map (\<lambda>p. JStr (affix splitOptions ''prepend'' @ p
                                              @ affix splitOptions ''append'')) pieces)))"

text \<open>
  And, of the default mode: the pieces, put together, are the text, and the text is cut
  at newlines only (every piece but the last ends with one).
\<close>

definition splits_at_newlines :: "(string \<Rightarrow> props \<Rightarrow> error + jsval) \<Rightarrow> bool" where
  "splits_at_newlines split =
     (\<forall>text splitOptions r. split text splitOptions = Inr r \<longrightarrow>
        (\<exists>pieces. r = JArr (map (\<lambda>p. JStr (affix splitOptions ''prepend'' @ p
                                              @ affix splitOptions ''append'')) pieces)
                  \<and> concat pieces = text
                  \<and> (\<forall>p\<in>set (butlast pieces). suffix nl p)))"

section \<open>Two targets to try the theorems on\<close>

definition text_channel :: message_target where
  "text_channel =
     \<lparr> tclass = TextChannel, ttype = JStr ''text'', tname = JStr ''general'',
       clientDisableEveryone = JBool False \<rparr>"

definition webhook :: message_target where
  "webhook =
     \<lparr> tclass = Webhook, ttype = JUndefined, tname = JStr ''relay'',
       clientDisableEveryone = JBool False \<rparr>"

section \<open>The mention token in the specification's words\<close>

text \<open>
  Section 4.2, step 2, for comparison with lines 63 and 64: the mention token of an id,
  in the ``nickname'' form \<^verbatim>\<open><@!id>\<close> or in the plain form \<^verbatim>\<open><@id>\<close>, with the separator
  \<^verbatim>\<open>", "\<close> behind it.
\<close>

definition mention_prefix :: "bool \<Rightarrow> string \<Rightarrow> string" where
  "mention_prefix nickname_form ident =
     (if nickname_form then ''<@!'' else ''<@'') @ ident @ ''>, ''"

section \<open>The discovery order in the specification's words\<close>

text \<open>
  Section 4.4, for comparison with lines 152 to 160: the members of a list of file
  references (none when the property is unset), and the file references embedded in a
  rich-content item, its \<^verbatim>\<open>files\<close>.
\<close>

definition members :: "jsval \<Rightarrow> jsval list" where
  "members v = (if truthy v then (case spread v of Inr xs \<Rightarrow> xs | Inl e \<Rightarrow> []) else [])"

definition embedded_files :: "jsval \<Rightarrow> jsval list" where
  "embedded_files like = (case getProp like ''files'' of Inr fs \<Rightarrow> members fs | Inl e \<Rightarrow> [])"

section \<open>Unfolding the definitions\<close>

lemmas content_defs =
  makeContent_def formatContent_def mentionStep_def fenceStep_def isSplit_def isCode_def
  contentString_def splitOptionsOf_def codeName_def
  disableEveryone_def isUser_def isWebhook_def field_def str_def Let_def

lemmas spec_env_simps =
  spec_env_def spec_resolveString_def spec_apiTransform_def text_channel_def webhook_def

section \<open>Properties of the normaliser\<close>

lemma partition_loop_filter:
  "partition_loop items embeds files =
     (embeds @ filter (\<lambda>x. instanceof x MessageEmbed) items,
      files @ filter (\<lambda>x. instanceof x MessageAttachment) items)"
proof (induction items arbitrary: embeds files)
  case Nil
  show ?case by simp
next
  case (Cons item items)
  show ?case
  proof (cases item)
    case (JObj c fs)
    then show ?thesis using Cons.IH by (cases c) simp_all
  qed (simp_all add: Cons.IH)
qed

text \<open>
  Claim C7. \<^verbatim>\<open>partitionMessageAdditions\<close> returns the rich-content items (instances of
  \<^verbatim>\<open>MessageEmbed\<close>) of its input in their input order and the attachment items
  (instances of \<^verbatim>\<open>MessageAttachment\<close>) in their input order; an item that is neither
  is in neither sequence. On the five-item input of the specification, with a string as
  the unrecognised item, the result is the pair written there.
\<close>

theorem partitionMessageAdditions_partitions:
  "partitionMessageAdditions items =
     (filter (\<lambda>x. instanceof x MessageEmbed) items,
      filter (\<lambda>x. instanceof x MessageAttachment) items)
   \<and> partitionMessageAdditions
        [JObj MessageEmbed [(''title'', JStr ''A'')], JObj MessageAttachment [(''name'', JStr ''B'')],
         JObj MessageEmbed [(''title'', JStr ''C'')], JStr ''junk'',
         JObj MessageAttachment [(''name'', JStr ''D'')]]
       = ([JObj MessageEmbed [(''title'', JStr ''A'')], JObj MessageEmbed [(''title'', JStr ''C'')]],
          [JObj MessageAttachment [(''name'', JStr ''B'')], JObj MessageAttachment [(''name'', JStr ''D'')]])"
  by (simp add: partitionMessageAdditions_def partition_loop_filter)

subsection \<open>\<^verbatim>\<open>Object.assign\<close> as a map\<close>

lemma map_of_foldl_update:
  "map_of (foldl (\<lambda>t kv. AList.update (fst kv) (snd kv) t) t ps) = map_of t ++ map_of (rev ps)"
proof (induction ps arbitrary: t)
  case Nil
  show ?case by simp
next
  case (Cons p ps)
  show ?case
    by (simp add: Cons.IH update_conv' fun_eq_iff map_add_def split: option.splits)
qed

lemma map_of_assign1:
  "map_of (assign1 t src) = map_of t ++ map_of (rev (ownProps src))"
  by (simp add: assign1_def map_of_foldl_update)

lemma distinct_foldl_update:
  "distinct (map fst t) \<Longrightarrow>
   distinct (map fst (foldl (\<lambda>t kv. AList.update (fst kv) (snd kv) t) t ps))"
  by (induction ps arbitrary: t) (simp_all add: distinct_update)

lemma distinct_assign1:
  "distinct (map fst t) \<Longrightarrow> distinct (map fst (assign1 t src))"
  by (simp add: assign1_def distinct_foldl_update)

lemma distinct_assign:
  "distinct (map fst t) \<Longrightarrow> distinct (map fst (assign t srcs))"
  unfolding assign_def by (induction srcs arbitrary: t) (simp_all add: distinct_assign1)

lemma map_of_rev_distinct:
  "distinct (map fst r) \<Longrightarrow> map_of (rev r) = map_of r"
  using map_of_inject_set[of "rev r" r] by (simp add: rev_map[symmetric])

subsection \<open>Feeding a result back\<close>

text \<open>The result of \<^verbatim>\<open>transformOptions\<close> never has a key twice.\<close>

lemma transformOptions_distinct:
  "distinct (map fst (transformOptions c opts e w))"
  by (simp add: transformOptions_def Let_def distinct_assign split: prod.splits)

text \<open>
  A plain object passed alone takes the last branch: the second pass is
  \<^verbatim>\<open>Object.assign({ content: '' }, r, {})\<close>.
\<close>

lemma transformOptions_reentry:
  "transformOptions (JObj PlainObject r) JUndefined JUndefined w =
     assign1 [(''content'', JStr [])] (JObj PlainObject r)"
  by (simp add: transformOptions_def assign_def assign1_def)

text \<open>
  So a first result that has a \<^verbatim>\<open>content\<close> property comes back with every property
  unchanged.
\<close>

lemma transformOptions_reentry_fields:
  assumes "r = transformOptions c opts e w" and "''content'' \<in> fst ` set r"
  shows "field (transformOptions (JObj PlainObject r) JUndefined JUndefined w') k = field r k"
proof -
  have d: "distinct (map fst r)"
    using assms(1) by (simp add: transformOptions_distinct)
  obtain v where v: "map_of r ''content'' = Some v"
    using assms(2) by (metis domD dom_map_of_conv_image_fst)
  show ?thesis
    using v
    by (simp add: transformOptions_reentry field_def map_of_assign1 map_of_rev_distinct[OF d]
        map_add_def split: option.splits)
qed

lemma assign1_keeps_keys: "k \<in> fst ` set t \<Longrightarrow> k \<in> fst ` set (assign1 t src)"
proof -
  assume "k \<in> fst ` set t"
  then have "k \<in> dom (map_of t)"
    by (simp add: dom_map_of_conv_image_fst)
  then have "k \<in> dom (map_of (assign1 t src))"
    by (auto simp: map_of_assign1)
  then show ?thesis
    by (simp add: dom_map_of_conv_image_fst)
qed

lemma assign_keeps_keys: "k \<in> fst ` set t \<Longrightarrow> k \<in> fst ` set (assign t srcs)"
  unfolding assign_def by (induction srcs arbitrary: t) (simp_all add: assign1_keeps_keys)

text \<open>
  Every branch but the one for a list of additions as content starts from a literal
  with a \<^verbatim>\<open>content\<close> property.
\<close>

lemma has_content_literal:
  "''content'' \<in> fst ` set (assign ((''content'', v) # t) srcs)"
  by (rule assign_keeps_keys) simp

lemma transformOptions_has_content:
  assumes "\<not> instanceof_Array c \<or> partitionMessageAdditions (elems c) = ([], [])"
  shows "''content'' \<in> fst ` set (transformOptions c opts e w)"
  using assms
  by (auto simp: transformOptions_def Let_def has_content_literal case_prod_beta)

text \<open>
  So the normaliser is re-entrant on every call but those whose content is a list that
  holds additions.
\<close>

lemma transformOptions_reentrant_elsewhere:
  assumes "\<not> instanceof_Array c \<or> partitionMessageAdditions (elems c) = ([], [])"
  shows "field (transformOptions (JObj PlainObject (transformOptions c opts e w))
                  JUndefined JUndefined w') k
           = field (transformOptions c opts e w) k"
  using transformOptions_reentry_fields[OF refl transformOptions_has_content[OF assms]] .

text \<open>
  Claim C1 (re-entrance of the normaliser) fails where the content itself is a list of
  additions: the branch of lines 250 to 254 builds its result without a \<^verbatim>\<open>content\<close>
  property, and the second pass, which starts from \<^verbatim>\<open>{ content: '' }\<close>, adds one. For
  the content \<^verbatim>\<open>[embed]\<close> on a target that is no webhook the first pass returns
  \<^verbatim>\<open>{ embed, files: [] }\<close> and the second \<^verbatim>\<open>{ content: '', embed, files: [] }\<close>: the
  property \<^verbatim>\<open>content\<close> reads \<^verbatim>\<open>undefined\<close> after one pass and \<^verbatim>\<open>''\<close> after two.
\<close>

theorem transformOptions_content_list_not_reentrant:
  "transformOptions (JArr [JObj MessageEmbed [(''title'', JStr ''t'')]]) JUndefined JUndefined False
     = [(''embed'', JObj MessageEmbed [(''title'', JStr ''t'')]), (''files'', JArr [])]
   \<and> transformOptions
        (JObj PlainObject
          (transformOptions (JArr [JObj MessageEmbed [(''title'', JStr ''t'')]])
             JUndefined JUndefined False))
        JUndefined JUndefined False
     = [(''content'', JStr []), (''embed'', JObj MessageEmbed [(''title'', JStr ''t'')]),
        (''files'', JArr [])]
   \<and> field (transformOptions (JArr [JObj MessageEmbed [(''title'', JStr ''t'')]])
              JUndefined JUndefined False) ''content'' = JUndefined
   \<and> field (transformOptions
              (JObj PlainObject
                (transformOptions (JArr [JObj MessageEmbed [(''title'', JStr ''t'')]])
                   JUndefined JUndefined False))
              JUndefined JUndefined False) ''content'' = JStr []"
  by (simp add: transformOptions_def partitionMessageAdditions_def assign_def assign1_def
      field_def)

subsection \<open>A list as content\<close>

lemma transformOptions_content_list:
  assumes "\<not> truthy opts" and "partitionMessageAdditions xs = ([], [])"
  shows "transformOptions (JArr xs) opts extra w = assign1 [(''content'', JArr xs)] extra"
  using assms
  by (cases opts) (simp_all add: transformOptions_def assign_def assign1_def Let_def)

text \<open>
  Claim C6, as the code has it. With the options absent (or falsy) and a list as
  content whose partition is empty, \<^verbatim>\<open>transformOptions\<close> falls through to the last
  branch with the list still in \<^verbatim>\<open>content\<close>: the result is
  \<^verbatim>\<open>Object.assign({ content }, {}, extra)\<close>, so its \<^verbatim>\<open>content\<close> property is the list
  itself unless \<^verbatim>\<open>extra\<close> has a \<^verbatim>\<open>content\<close> of its own, and without \<^verbatim>\<open>extra\<close> the result
  is exactly \<^verbatim>\<open>{ content: list }\<close>. The list is not replaced by an empty string.
\<close>

theorem transformOptions_content_list_fallthrough:
  assumes "\<not> truthy opts" and "partitionMessageAdditions xs = ([], [])"
  shows "transformOptions (JArr xs) opts JUndefined w = [(''content'', JArr xs)]
       \<and> transformOptions (JArr xs) opts extra w = assign1 [(''content'', JArr xs)] extra
       \<and> (map_of (ownProps extra) ''content'' = None \<longrightarrow>
            field (transformOptions (JArr xs) opts extra w) ''content'' = JArr xs)"
proof -
  have r: "transformOptions (JArr xs) opts x w = assign1 [(''content'', JArr xs)] x" for x
    using assms by (rule transformOptions_content_list)
  have none: "map_of (rev (ownProps extra)) ''content'' = None"
    if "map_of (ownProps extra) ''content'' = None"
    using that by (simp add: map_of_eq_None_iff)
  show ?thesis
    using none by (simp add: r assign1_def[of _ JUndefined] field_def map_of_assign1 map_add_def)
qed

theorem transformOptions_content_list_fallthrough_witness:
  "\<not> truthy JUndefined
   \<and> partitionMessageAdditions [JStr ''a'', JStr ''b''] = ([], [])
   \<and> transformOptions (JArr [JStr ''a'', JStr ''b'']) JUndefined JUndefined False
       = [(''content'', JArr [JStr ''a'', JStr ''b''])]
   \<and> field (transformOptions (JArr [JStr ''a'', JStr ''b'']) JUndefined
               (JObj PlainObject [(''tts'', JBool True)]) False) ''content''
       = JArr [JStr ''a'', JStr ''b'']"
  using transformOptions_content_list_fallthrough
          [of JUndefined "[JStr ''a'', JStr ''b'']" False "JObj PlainObject [(''tts'', JBool True)]"]
  by (simp add: partitionMessageAdditions_def assign1_def field_def)

text \<open>
  Claim C6 as it is worded does not hold: the content \<^verbatim>\<open>['a', 'b']\<close>, a list without
  additions, and the empty list both stay in the \<^verbatim>\<open>content\<close> property; neither becomes
  the empty string.
\<close>

theorem transformOptions_content_list_counterexample:
  "field (transformOptions (JArr [JStr ''a'', JStr ''b'']) JUndefined JUndefined False) ''content''
     = JArr [JStr ''a'', JStr ''b'']
   \<and> field (transformOptions (JArr [JStr ''a'', JStr ''b'']) JUndefined JUndefined False) ''content''
     \<noteq> JStr []
   \<and> field (transformOptions (JArr []) JUndefined JUndefined False) ''content'' = JArr []"
  by (simp add: transformOptions_def partitionMessageAdditions_def assign_def assign1_def
      field_def)

section \<open>Properties of \<^verbatim>\<open>resolveData\<close>\<close>

subsection \<open>The nonce\<close>

lemma parseInt_string_cases: "(\<exists>n. parseInt_string s = JNum n) \<or> parseInt_string s = JNaN"
  by (simp add: parseInt_string_def Let_def)

lemma nan_or_negative_iff:
  "nan_or_negative v \<longleftrightarrow> \<not> (\<exists>n. v = JNum n \<and> 0 \<le> n)"
  by (cases v) auto

text \<open>
  Claim C3. Where the content is made and the rich-content items are collected without
  an error: with the \<^verbatim>\<open>nonce\<close> option unset \<^verbatim>\<open>resolveData\<close> returns a payload whose
  nonce is \<^verbatim>\<open>undefined\<close>; with the option set it throws \<open>InvalidNonce\<close> exactly when
  \<^verbatim>\<open>parseInt\<close> of the option is not a non-negative integer, and otherwise returns a
  payload whose nonce is that integer. \<^verbatim>\<open>parseInt\<close> makes 5 of \<^verbatim>\<open>"5"\<close>, -1 of \<^verbatim>\<open>"-1"\<close>
  and \<^verbatim>\<open>NaN\<close> of \<^verbatim>\<open>"abc"\<close>.
\<close>

theorem resolveData_nonce:
  assumes "makeContent U m = Inr c" and "embedLikes m = Inr likes"
  shows "(field (options m) ''nonce'' = JUndefined \<longrightarrow>
            (\<exists>p. resolveData U m = Inr p \<and> p_nonce p = JUndefined))
       \<and> (field (options m) ''nonce'' \<noteq> JUndefined \<longrightarrow>
            (resolveData U m = Inl InvalidNonce
               \<longleftrightarrow> \<not> (\<exists>n. parseInt U (field (options m) ''nonce'') = JNum n \<and> 0 \<le> n))
            \<and> (\<forall>n. parseInt U (field (options m) ''nonce'') = JNum n \<and> 0 \<le> n \<longrightarrow>
                  (\<exists>p. resolveData U m = Inr p \<and> p_nonce p = JNum n)))
       \<and> parseInt U (JStr ''5'') = JNum 5
       \<and> parseInt U (JStr ''-1'') = JNum (- 1)
       \<and> parseInt U (JStr ''abc'') = JNaN"
proof -
  have unset: "field (options m) ''nonce'' = JUndefined \<Longrightarrow>
      \<exists>p. resolveData U m = Inr p \<and> p_nonce p = JUndefined"
    using assms by (simp add: resolveData_def resolveNonce_def)
  have bad: "resolveData U m = Inl InvalidNonce
      \<longleftrightarrow> \<not> (\<exists>n. parseInt U (field (options m) ''nonce'') = JNum n \<and> 0 \<le> n)"
    if "field (options m) ''nonce'' \<noteq> JUndefined"
    using assms that by (simp add: resolveData_def resolveNonce_def nan_or_negative_iff)
  have good: "\<exists>p. resolveData U m = Inr p \<and> p_nonce p = JNum n"
    if "field (options m) ''nonce'' \<noteq> JUndefined"
      and "parseInt U (field (options m) ''nonce'') = JNum n" and "0 \<le> n" for n
    using assms that by (simp add: resolveData_def resolveNonce_def)
  have ex: "parseInt U (JStr ''5'') = JNum 5" "parseInt U (JStr ''-1'') = JNum (- 1)"
    "parseInt U (JStr ''abc'') = JNaN"
    by (simp_all add: parseInt_def str_def parseInt_string_def digit_value_def white_space_def)
  show ?thesis
    using unset bad good ex by blast
qed


theorem resolveData_nonce_witness:
  "makeContent spec_env
      \<lparr> target = text_channel, options = [(''content'', JStr ''hi''), (''nonce'', JStr ''5'')] \<rparr>
     = Inr (JStr ''hi'')
   \<and> embedLikes
      \<lparr> target = text_channel, options = [(''content'', JStr ''hi''), (''nonce'', JStr ''5'')] \<rparr>
     = Inr []
   \<and> (\<exists>p. resolveData spec_env
            \<lparr> target = text_channel,
              options = [(''content'', JStr ''hi''), (''nonce'', JStr ''5'')] \<rparr> = Inr p
          \<and> p_nonce p = JNum 5)
   \<and> resolveData spec_env
        \<lparr> target = text_channel, options = [(''content'', JStr ''hi''), (''nonce'', JStr ''-1'')] \<rparr>
     = Inl InvalidNonce
   \<and> resolveData spec_env
        \<lparr> target = text_channel, options = [(''content'', JStr ''hi''), (''nonce'', JStr ''abc'')] \<rparr>
     = Inl InvalidNonce
   \<and> resolveData spec_env \<lparr> target = text_channel, options = [(''content'', JStr ''hi'')] \<rparr>
     = Inr \<lparr> p_content = JStr ''hi'', p_tts = False, p_nonce = JUndefined,
             p_embed = JUndefined, p_embeds = [], p_username = JUndefined,
             p_avatar_url = JUndefined \<rparr>"
proof -
  let ?m = "\<lambda>n. \<lparr> target = text_channel, options = [(''content'', JStr ''hi''), (''nonce'', n)] \<rparr>"
  have c: "makeContent spec_env (?m n) = Inr (JStr ''hi'')" for n
    by (simp add: content_defs spec_env_simps)
  have e: "embedLikes (?m n) = Inr []" for n
    by (simp add: embedLikes_def isWebhook_def field_def spec_env_simps)
  have five: "\<exists>p. resolveData spec_env (?m (JStr ''5'')) = Inr p \<and> p_nonce p = JNum 5"
    using resolveData_nonce[OF c[of "JStr ''5''"] e[of "JStr ''5''"]] by (simp add: field_def)
  have neg: "resolveData spec_env (?m (JStr ''-1'')) = Inl InvalidNonce"
    using resolveData_nonce[OF c[of "JStr ''-1''"] e[of "JStr ''-1''"]] by (simp add: field_def)
  have abc: "resolveData spec_env (?m (JStr ''abc'')) = Inl InvalidNonce"
    using resolveData_nonce[OF c[of "JStr ''abc''"] e[of "JStr ''abc''"]] by (simp add: field_def)
  have unset: "resolveData spec_env \<lparr> target = text_channel, options = [(''content'', JStr ''hi'')] \<rparr>
     = Inr \<lparr> p_content = JStr ''hi'', p_tts = False, p_nonce = JUndefined,
             p_embed = JUndefined, p_embeds = [], p_username = JUndefined,
             p_avatar_url = JUndefined \<rparr>"
    by (simp add: resolveData_def resolveNonce_def embedLikes_def content_defs spec_env_simps)
  show ?thesis
    using c e five neg abc unset by simp
qed

subsection \<open>One item or a list of items\<close>

lemma partition_all_embeds:
  "\<forall>x\<in>set xs. instanceof x MessageEmbed \<Longrightarrow> partitionMessageAdditions xs = (xs, [])"
proof -
  assume a: "\<forall>x\<in>set xs. instanceof x MessageEmbed"
  have "filter (\<lambda>x. instanceof x MessageAttachment) xs = []"
  proof (rule filter_False, rule ballI)
    fix x assume "x \<in> set xs"
    with a have "instanceof x MessageEmbed" by blast
    then show "\<not> instanceof x MessageAttachment" by (cases x) auto
  qed
  with a show ?thesis
    by (simp add: partitionMessageAdditions_def partition_loop_filter)
qed

text \<open>
  A message made from a content and a list of additions as options has no reply, split
  or code option, so its content is the content coerced to a string, escaped or not.
\<close>

lemma formatContent_plain:
  assumes "field (options m) ''reply'' = JUndefined"
    and "field (options m) ''split'' = JUndefined"
    and "field (options m) ''code'' = JUndefined"
  shows "\<exists>s. formatContent U m = Inr (Whole s)"
  using assms
  by (simp add: formatContent_def mentionStep_def fenceStep_def isSplit_def isCode_def Let_def)

lemma makeContent_plain:
  assumes "field (options m) ''reply'' = JUndefined"
    and "field (options m) ''split'' = JUndefined"
    and "field (options m) ''code'' = JUndefined"
  shows "\<exists>s. makeContent U m = Inr (JStr s)"
  using formatContent_plain[OF assms, of U] by (auto simp: makeContent_def)

text \<open>
  Claim C2. A list of rich-content items is passed as the options of \<^verbatim>\<open>create\<close>, with
  any content and no \<^verbatim>\<open>extra\<close>. For a webhook target \<^verbatim>\<open>resolveData\<close> returns a payload
  whose \<^verbatim>\<open>embeds\<close> are the wire forms of all the items in their order; for any other
  target it returns, without an error, a payload whose \<^verbatim>\<open>embeds\<close> hold the wire form of
  the first item only (and whose \<^verbatim>\<open>embed\<close> is that wire form): the other items are gone.
\<close>

theorem resolveData_embeds_by_target:
  assumes "\<forall>x\<in>set xs. instanceof x MessageEmbed"
  shows "(tclass tgt = Webhook \<or> tclass tgt = WebhookClient \<longrightarrow>
            (\<exists>p. resolveData U (create tgt content (JArr xs) JUndefined) = Inr p
                 \<and> p_embeds p = map (apiTransform U) xs))
       \<and> (tclass tgt \<noteq> Webhook \<and> tclass tgt \<noteq> WebhookClient \<longrightarrow>
            (\<exists>p. resolveData U (create tgt content (JArr xs) JUndefined) = Inr p
                 \<and> p_embeds p = map (apiTransform U) (take 1 xs)
                 \<and> p_embed p = first (map (apiTransform U) xs)))"
proof (intro conjI impI)
  let ?m = "create tgt content (JArr xs) JUndefined"
  have part: "partitionMessageAdditions xs = (xs, [])"
    using assms by (rule partition_all_embeds)
  {
    assume w: "tclass tgt = Webhook \<or> tclass tgt = WebhookClient"
    have o: "options ?m = [(''content'', content), (''embeds'', JArr xs), (''files'', JArr [])]"
      using w part by (auto simp: create_def transformOptions_def assign_def assign1_def)
    obtain s where s: "makeContent U ?m = Inr (JStr s)"
      using makeContent_plain[of ?m U] by (auto simp: o field_def)
    have wh: "isWebhook ?m"
      using w by (simp add: isWebhook_def create_def)
    show "\<exists>p. resolveData U ?m = Inr p \<and> p_embeds p = map (apiTransform U) xs"
      using wh by (simp add: resolveData_def s resolveNonce_def embedLikes_def o field_def)
  }
  {
    assume w: "tclass tgt \<noteq> Webhook \<and> tclass tgt \<noteq> WebhookClient"
    have o: "options ?m = [(''content'', content), (''embed'', first xs), (''files'', JArr [])]"
      using w part by (auto simp: create_def transformOptions_def assign_def assign1_def)
    obtain s where s: "makeContent U ?m = Inr (JStr s)"
      using makeContent_plain[of ?m U] by (auto simp: o field_def)
    have wh: "\<not> isWebhook ?m"
      using w by (simp add: isWebhook_def create_def)
    have tr: "truthy (first xs) \<longleftrightarrow> xs \<noteq> []"
    proof (cases xs)
      case Nil
      then show ?thesis by simp
    next
      case (Cons x rest)
      with assms have "instanceof x MessageEmbed" by simp
      then show ?thesis using Cons by (cases x) auto
    qed
    have nn: "first xs \<noteq> JNull"
    proof (cases xs)
      case Nil
      then show ?thesis by simp
    next
      case (Cons x rest)
      with assms have "instanceof x MessageEmbed" by simp
      then show ?thesis using Cons by (cases x) auto
    qed
    show "\<exists>p. resolveData U ?m = Inr p \<and> p_embeds p = map (apiTransform U) (take 1 xs)
            \<and> p_embed p = first (map (apiTransform U) xs)"
    proof -
      have el: "embedLikes ?m = Inr (take 1 xs)"
        using wh tr o by (cases xs) (simp_all add: embedLikes_def field_def)
      have fe: "field (options ?m) ''embed'' \<noteq> JNull"
        using nn by (simp add: o field_def)
      have nonce: "field (options ?m) ''nonce'' = JUndefined"
        by (simp add: o field_def)
      have "first (map (apiTransform U) (take 1 xs)) = first (map (apiTransform U) xs)"
        by (cases xs) simp_all
      then show ?thesis
        using fe by (simp add: resolveData_def s resolveNonce_def el nonce)
    qed
  }
qed

theorem resolveData_embeds_by_target_witness:
  "instanceof (JObj MessageEmbed [(''title'', JStr ''A'')]) MessageEmbed
   \<and> instanceof (JObj MessageEmbed [(''title'', JStr ''B'')]) MessageEmbed
   \<and> instanceof (JObj MessageEmbed [(''title'', JStr ''C'')]) MessageEmbed
   \<and> (\<exists>p. resolveData spec_env
            (create webhook (JStr ''hi'')
               (JArr [JObj MessageEmbed [(''title'', JStr ''A'')],
                      JObj MessageEmbed [(''title'', JStr ''B'')],
                      JObj MessageEmbed [(''title'', JStr ''C'')]]) JUndefined) = Inr p
          \<and> p_embeds p = [JObj PlainObject [(''title'', JStr ''A'')],
                           JObj PlainObject [(''title'', JStr ''B'')],
                           JObj PlainObject [(''title'', JStr ''C'')]])
   \<and> (\<exists>p. resolveData spec_env
            (create text_channel (JStr ''hi'')
               (JArr [JObj MessageEmbed [(''title'', JStr ''A'')],
                      JObj MessageEmbed [(''title'', JStr ''B'')],
                      JObj MessageEmbed [(''title'', JStr ''C'')]]) JUndefined) = Inr p
          \<and> p_embeds p = [JObj PlainObject [(''title'', JStr ''A'')]]
          \<and> p_embed p = JObj PlainObject [(''title'', JStr ''A'')])"
proof -
  let ?xs = "[JObj MessageEmbed [(''title'', JStr ''A'')], JObj MessageEmbed [(''title'', JStr ''B'')],
              JObj MessageEmbed [(''title'', JStr ''C'')]]"
  have a: "\<forall>x\<in>set ?xs. instanceof x MessageEmbed" by simp
  show ?thesis
    using resolveData_embeds_by_target[OF a, of webhook spec_env "JStr ''hi''"]
      resolveData_embeds_by_target[OF a, of text_channel spec_env "JStr ''hi''"]
    by (simp add: spec_env_simps)
qed

section \<open>Properties of \<^verbatim>\<open>makeContent\<close>\<close>

subsection \<open>The mention prefix\<close>

lemma mentionStep_eligible:
  assumes "truthy (field (options m) ''reply'')" and "\<not> isUser m"
    and "ttype (target m) \<noteq> JStr ''dm''"
  shows "mentionStep U m so =
     (case resolveID U (field (options m) ''reply'') of
        Inl e \<Rightarrow> Inl e
      | Inr ident \<Rightarrow>
          Inr (mention_prefix
                 (instanceof (field (options m) ''reply'') GuildMember
                  \<and> truthy (field (ownProps (field (options m) ''reply'')) ''nickname''))
                 (str U ident),
               if isSplit (options m)
               then AList.update ''prepend''
                      (JStr (mention_prefix
                               (instanceof (field (options m) ''reply'') GuildMember
                                \<and> truthy (field (ownProps (field (options m) ''reply'')) ''nickname''))
                               (str U ident)
                             @ str U (js_or (field so ''prepend'') (JStr [])))) so
               else so))"
  using assms by (simp add: mentionStep_def mention_prefix_def Let_def split: sum.splits)

lemma mention_prefix_not_empty: "mention_prefix b i \<noteq> []"
  by (simp add: mention_prefix_def)

text \<open>
  Claim C5. The options have a reply, the target is neither a user nor a member and
  its type is not \<^verbatim>\<open>'dm'\<close>. Then \<^verbatim>\<open>makeContent\<close> asks \<^verbatim>\<open>resolveID\<close> for the id of the reply;
  when that fails (with \<open>InvalidMentionTarget\<close>, as the specification has it),
  \<^verbatim>\<open>makeContent\<close> fails with the same error. When it returns an id, the text produced
  (returned, or handed to the splitter) is the mention token followed by the rest, the
  whole passed through the mention-escaping when that is switched on; the token has the
  nickname form \<^verbatim>\<open><@!id>\<close> exactly when the reply is a \<^verbatim>\<open>GuildMember\<close> whose \<^verbatim>\<open>nickname\<close> is
  truthy, the plain form \<^verbatim>\<open><@id>\<close> otherwise, and \<^verbatim>\<open>", "\<close> behind it.
\<close>

theorem makeContent_mention:
  assumes "truthy (field (options m) ''reply'')" and "\<not> isUser m"
    and "ttype (target m) \<noteq> JStr ''dm''"
  shows "(\<forall>e. resolveID U (field (options m) ''reply'') = Inl e \<longrightarrow> makeContent U m = Inl e)
       \<and> (\<forall>ident. resolveID U (field (options m) ''reply'') = Inr ident \<longrightarrow>
            (\<exists>f rest. formatContent U m = Inr f
               \<and> text_of f =
                   (if truthy (disableEveryone m) then escapeMentions else (\<lambda>s. s))
                     (mention_prefix
                        (instanceof (field (options m) ''reply'') GuildMember
                         \<and> truthy (field (ownProps (field (options m) ''reply'')) ''nickname''))
                        (str U ident) @ rest)))"
proof (intro conjI allI impI)
  fix e
  assume "resolveID U (field (options m) ''reply'') = Inl e"
  then show "makeContent U m = Inl e"
    by (simp add: makeContent_def formatContent_def mentionStep_eligible[OF assms] Let_def)
next
  fix ident
  assume r: "resolveID U (field (options m) ''reply'') = Inr ident"
  show "\<exists>f rest. formatContent U m = Inr f
               \<and> text_of f =
                   (if truthy (disableEveryone m) then escapeMentions else (\<lambda>s. s))
                     (mention_prefix
                        (instanceof (field (options m) ''reply'') GuildMember
                         \<and> truthy (field (ownProps (field (options m) ''reply'')) ''nickname''))
                        (str U ident) @ rest)"
    by (simp add: formatContent_def mentionStep_eligible[OF assms] r Let_def fenceStep_def
        mention_prefix_not_empty) blast
qed


theorem makeContent_mention_witness:
  "truthy (field (options \<lparr> target = text_channel,
                             options = [(''content'', JStr ''hi''), (''reply'', JNum 5)] \<rparr>) ''reply'')
   \<and> \<not> isUser \<lparr> target = text_channel,
                    options = [(''content'', JStr ''hi''), (''reply'', JNum 5)] \<rparr>
   \<and> ttype (target \<lparr> target = text_channel,
                         options = [(''content'', JStr ''hi''), (''reply'', JNum 5)] \<rparr>) \<noteq> JStr ''dm''
   \<and> resolveID spec_env (JNum 5) = Inl InvalidMentionTarget
   \<and> makeContent spec_env
        \<lparr> target = text_channel, options = [(''content'', JStr ''hi''), (''reply'', JNum 5)] \<rparr>
       = Inl InvalidMentionTarget
   \<and> (\<exists>f rest. formatContent spec_env
          \<lparr> target = text_channel,
            options = [(''content'', JStr ''hi''),
                       (''reply'', JObj GuildMember [(''id'', JStr ''42''), (''nickname'', JStr ''Nick'')])] \<rparr>
          = Inr f \<and> text_of f = ''<@!42>, '' @ rest)
   \<and> makeContent spec_env
        \<lparr> target = text_channel,
          options = [(''content'', JStr ''hi''),
                     (''reply'', JObj GuildMember [(''id'', JStr ''42''), (''nickname'', JStr ''Nick'')])] \<rparr>
       = Inr (JStr ''<@!42>, hi'')
   \<and> makeContent spec_env
        \<lparr> target = text_channel,
          options = [(''content'', JStr ''hi''),
                     (''reply'', JObj GuildMember [(''id'', JStr ''42''), (''nickname'', JNull)])] \<rparr>
       = Inr (JStr ''<@42>, hi'')
   \<and> makeContent spec_env
        \<lparr> target = text_channel,
          options = [(''content'', JStr ''hi''), (''reply'', JObj User [(''id'', JStr ''42'')])] \<rparr>
       = Inr (JStr ''<@42>, hi'')"
proof -
  let ?m = "\<lambda>r. \<lparr> target = text_channel, options = [(''content'', JStr ''hi''), (''reply'', r)] \<rparr>"
  let ?member = "JObj GuildMember [(''id'', JStr ''42''), (''nickname'', JStr ''Nick'')]"
  have h: "truthy (field (options (?m (JNum 5))) ''reply'')" "\<not> isUser (?m (JNum 5))"
    "ttype (target (?m (JNum 5))) \<noteq> JStr ''dm''"
    by (simp_all add: field_def isUser_def text_channel_def)
  have h': "truthy (field (options (?m ?member)) ''reply'')" "\<not> isUser (?m ?member)"
    "ttype (target (?m ?member)) \<noteq> JStr ''dm''"
    by (simp_all add: field_def isUser_def text_channel_def)
  have u: "resolveID spec_env (JNum 5) = Inl InvalidMentionTarget"
    by (simp add: spec_env_def)
  have fail: "makeContent spec_env (?m (JNum 5)) = Inl InvalidMentionTarget"
    using makeContent_mention[OF h, of spec_env] u by (simp add: field_def)
  have nick: "\<exists>f rest. formatContent spec_env (?m ?member) = Inr f \<and> text_of f = ''<@!42>, '' @ rest"
    using makeContent_mention[OF h', of spec_env]
    by (simp add: field_def spec_env_def disableEveryone_def text_channel_def mention_prefix_def
        str_def)
  have direct: "makeContent spec_env (?m ?member) = Inr (JStr ''<@!42>, hi'')"
    "makeContent spec_env (?m (JObj GuildMember [(''id'', JStr ''42''), (''nickname'', JNull)]))
       = Inr (JStr ''<@42>, hi'')"
    "makeContent spec_env (?m (JObj User [(''id'', JStr ''42'')])) = Inr (JStr ''<@42>, hi'')"
    by (simp_all add: content_defs spec_env_simps)
  show ?thesis
    using h u fail nick direct by simp
qed

subsection \<open>The code fence and the splitter\<close>

lemma field_update_same: "field (AList.update k v al) k = v"
  by (simp add: field_def update_conv')

lemma field_update_other: "k' \<noteq> k \<Longrightarrow> field (AList.update k v al) k' = field al k'"
  by (simp add: field_def update_conv')

lemma affix_update_same: "affix (AList.update k (JStr s) al) k = s"
  by (simp add: affix_def field_update_same)

lemma affix_update_other: "k' \<noteq> k \<Longrightarrow> affix (AList.update k v al) k' = affix al k'"
  by (simp add: affix_def field_update_other)

text \<open>The splitter of the specification does what the specification asks of one.\<close>

lemma spec_splitMessage_wraps: "wraps_every_chunk spec_splitMessage"
  unfolding wraps_every_chunk_def spec_splitMessage_def Let_def
  by (auto split: sum.splits)

text \<open>
  Claim C4, as the code has it. The options ask for a code fence and for splitting,
  the content is not empty, and the mention step has gone through with prefix \<open>mp\<close>
  (empty without a reply) and split options \<open>so\<close>. Then the text handed to the splitter
  is the fenced block itself, fence markers included (escaped for mentions when that is
  switched on), and the fence markers are put into the split options as well: the
  opening fence with the language tag at the end of \<^verbatim>\<open>prepend\<close>, the closing fence at
  the start of \<^verbatim>\<open>append\<close>. With a splitter that puts every piece between the configured
  prepend and append, every chunk is: what the prepend held before (the mention prefix
  and the caller's prepend), the opening fence with the language tag, a piece, the
  closing fence, the caller's append. So every chunk is fenced on its own, and starts
  with the opening fence and ends with the closing fence when there is neither a
  mention prefix nor a prepend or append of the caller's.
\<close>

theorem code_fence_split:
  assumes "isCode (options m)" and "isSplit (options m)"
    and "contentString U (options m) \<noteq> []"
    and "mentionStep U m (splitOptionsOf (options m)) = Inr (mp, so)"
  shows "\<exists>so'. formatContent U m =
            Inr (ToSplit
                  ((if truthy (disableEveryone m) then escapeMentions else (\<lambda>s. s))
                     (mp @ fence @ codeName (options m) @ nl
                      @ escapeMarkdown U (contentString U (options m)) True @ nl @ fence))
                  so')
          \<and> field so' ''prepend''
              = JStr (str U (js_or (field so ''prepend'') (JStr []))
                      @ fence @ codeName (options m) @ nl)
          \<and> field so' ''append''
              = JStr (nl @ fence @ str U (js_or (field so ''append'') (JStr [])))
          \<and> (wraps_every_chunk (splitMessage U) \<longrightarrow>
               (\<forall>r. makeContent U m = Inr r \<longrightarrow>
                  (\<exists>pieces. r = JArr (map (\<lambda>p. JStr (str U (js_or (field so ''prepend'') (JStr []))
                                                     @ fence @ codeName (options m) @ nl
                                                     @ p
                                                     @ nl @ fence
                                                     @ str U (js_or (field so ''append'') (JStr []))))
                                        pieces))))"
proof -
  define P where "P = str U (js_or (field so ''prepend'') (JStr []))"
  define A where "A = str U (js_or (field so ''append'') (JStr []))"
  define so' where
    "so' = AList.update ''append'' (JStr (nl @ fence @ A))
             (AList.update ''prepend'' (JStr (P @ fence @ codeName (options m) @ nl)) so)"
  define handed where
    "handed = (if truthy (disableEveryone m) then escapeMentions else (\<lambda>s. s))
              (mp @ fence @ codeName (options m) @ nl
               @ escapeMarkdown U (contentString U (options m)) True @ nl @ fence)"
  have f: "formatContent U m = Inr (ToSplit handed so')"
    using assms
    by (simp add: formatContent_def fenceStep_def Let_def handed_def so'_def P_def A_def
        field_update_other)
  have pre: "field so' ''prepend'' = JStr (P @ fence @ codeName (options m) @ nl)"
    by (simp add: so'_def field_update_other field_update_same)
  have app: "field so' ''append'' = JStr (nl @ fence @ A)"
    by (simp add: so'_def field_update_same)
  have chunks: "\<exists>pieces. r = JArr (map (\<lambda>p. JStr (P @ fence @ codeName (options m) @ nl @ p
                                                  @ nl @ fence @ A)) pieces)"
    if w: "wraps_every_chunk (splitMessage U)" and r: "makeContent U m = Inr r" for r
  proof -
    have "splitMessage U handed so' = Inr r"
      using r by (simp add: makeContent_def f)
    with w obtain pieces where
      "r = JArr (map (\<lambda>p. JStr (affix so' ''prepend'' @ p @ affix so' ''append'')) pieces)"
      unfolding wraps_every_chunk_def by blast
    then have "r = JArr (map (\<lambda>p. JStr (P @ fence @ codeName (options m) @ nl @ p
                                        @ nl @ fence @ A)) pieces)"
      by (simp add: affix_def pre app)
    then show ?thesis by blast
  qed
  show ?thesis
    using f pre app chunks unfolding handed_def P_def A_def by blast
qed

text \<open>
  Claim C4 as it is worded does not hold: with the content \<^verbatim>\<open>x\<close>, the code language
  \<^verbatim>\<open>js\<close> and \<^verbatim>\<open>split: true\<close>, the string handed to the splitter is the fenced block,
  opening and closing fence included, while the fences are in the split options too.
\<close>

theorem code_fence_split_counterexample:
  "formatContent spec_env
     \<lparr> target = text_channel,
       options = [(''content'', JStr ''x''), (''code'', JStr ''js''), (''split'', JBool True)] \<rparr>
   = Inr (ToSplit (''```js'' @ nl @ ''x'' @ nl @ ''```'')
            [(''prepend'', JStr (''```js'' @ nl)), (''append'', JStr (nl @ ''```''))])"
  by (simp add: content_defs js_or_def spec_env_simps fence_def nl_def assign1_def)

theorem code_fence_split_witness:
  "isCode (options \<lparr> target = text_channel,
                      options = [(''content'', JStr (''a'' @ nl @ ''b'')), (''code'', JStr ''js''),
                                 (''split'', JObj PlainObject [(''maxLength'', JNum 20)])] \<rparr>)
   \<and> isSplit (options \<lparr> target = text_channel,
                      options = [(''content'', JStr (''a'' @ nl @ ''b'')), (''code'', JStr ''js''),
                                 (''split'', JObj PlainObject [(''maxLength'', JNum 20)])] \<rparr>)
   \<and> contentString spec_env
        (options \<lparr> target = text_channel,
                   options = [(''content'', JStr (''a'' @ nl @ ''b'')), (''code'', JStr ''js''),
                              (''split'', JObj PlainObject [(''maxLength'', JNum 20)])] \<rparr>) \<noteq> []
   \<and> mentionStep spec_env
        \<lparr> target = text_channel,
          options = [(''content'', JStr (''a'' @ nl @ ''b'')), (''code'', JStr ''js''),
                     (''split'', JObj PlainObject [(''maxLength'', JNum 20)])] \<rparr>
        (splitOptionsOf
           (options \<lparr> target = text_channel,
                      options = [(''content'', JStr (''a'' @ nl @ ''b'')), (''code'', JStr ''js''),
                                 (''split'', JObj PlainObject [(''maxLength'', JNum 20)])] \<rparr>))
       = Inr ([], [(''maxLength'', JNum 20)])
   \<and> wraps_every_chunk (splitMessage spec_env)
   \<and> makeContent spec_env
        \<lparr> target = text_channel,
          options = [(''content'', JStr (''a'' @ nl @ ''b'')), (''code'', JStr ''js''),
                     (''split'', JObj PlainObject [(''maxLength'', JNum 20)])] \<rparr>
       = Inr (JArr [JStr (''```js'' @ nl @ ''```js'' @ nl @ ''a'' @ nl @ ''b'' @ nl @ nl @ ''```''),
                    JStr (''```js'' @ nl @ ''```'' @ nl @ ''```'')])
   \<and> (\<exists>pieces.
         JArr [JStr (''```js'' @ nl @ ''```js'' @ nl @ ''a'' @ nl @ ''b'' @ nl @ nl @ ''```''),
               JStr (''```js'' @ nl @ ''```'' @ nl @ ''```'')]
         = JArr (map (\<lambda>p. JStr (''```js'' @ nl @ p @ nl @ ''```'')) pieces))"
proof -
  let ?m = "\<lparr> target = text_channel,
              options = [(''content'', JStr (''a'' @ nl @ ''b'')), (''code'', JStr ''js''),
                         (''split'', JObj PlainObject [(''maxLength'', JNum 20)])] \<rparr>"
  have h1: "isCode (options ?m)" and h2: "isSplit (options ?m)"
    by (simp_all add: isCode_def isSplit_def field_def)
  have h3: "contentString spec_env (options ?m) \<noteq> []"
    by (simp add: contentString_def field_def spec_env_simps)
  have h4: "mentionStep spec_env ?m (splitOptionsOf (options ?m)) = Inr ([], [(''maxLength'', JNum 20)])"
    by (simp add: mentionStep_def splitOptionsOf_def isSplit_def field_def assign1_def)
  have w: "wraps_every_chunk (splitMessage spec_env)"
    by (simp add: spec_env_def spec_splitMessage_wraps)
  have r: "makeContent spec_env ?m
       = Inr (JArr [JStr (''```js'' @ nl @ ''```js'' @ nl @ ''a'' @ nl @ ''b'' @ nl @ nl @ ''```''),
                    JStr (''```js'' @ nl @ ''```'' @ nl @ ''```'')])"
    by (simp add: content_defs js_or_def spec_env_simps fence_def nl_def assign1_def
        spec_splitMessage_def affix_def)
  from code_fence_split[OF h1 h2 h3 h4] w r
  have "\<exists>pieces.
         JArr [JStr (''```js'' @ nl @ ''```js'' @ nl @ ''a'' @ nl @ ''b'' @ nl @ nl @ ''```''),
               JStr (''```js'' @ nl @ ''```'' @ nl @ ''```'')]
         = JArr (map (\<lambda>p. JStr (str spec_env (js_or (field [(''maxLength'', JNum 20)] ''prepend'') (JStr []))
                                  @ fence @ codeName (options ?m) @ nl @ p @ nl @ fence
                                  @ str spec_env (js_or (field [(''maxLength'', JNum 20)] ''append'') (JStr []))))
                  pieces)"
    by blast
  then have "\<exists>pieces.
         JArr [JStr (''```js'' @ nl @ ''```js'' @ nl @ ''a'' @ nl @ ''b'' @ nl @ nl @ ''```''),
               JStr (''```js'' @ nl @ ''```'' @ nl @ ''```'')]
         = JArr (map (\<lambda>p. JStr (''```js'' @ nl @ p @ nl @ ''```'')) pieces)"
    by (simp add: codeName_def field_def fence_def str_def js_or_def)
  then show ?thesis
    using h1 h2 h3 h4 w r by blast
qed

subsection \<open>Mention escaping\<close>

lemma escapeMentions_append_no_at:
  "CHR ''@'' \<notin> set xs \<Longrightarrow> escapeMentions (xs @ ys) = xs @ escapeMentions ys"
  by (induction xs) auto

lemma prefix_escapeMentions:
  "CHR ''@'' \<notin> set p \<Longrightarrow> prefix p (escapeMentions cs) \<longleftrightarrow> prefix p cs"
proof (induction p arbitrary: cs)
  case Nil
  show ?case by simp
next
  case (Cons q qs)
  show ?case
  proof (cases cs)
    case Nil
    then show ?thesis by simp
  next
    case (Cons d ds)
    with Cons.prems Cons.IH[of ds] show ?thesis
      by (auto simp: zwsp_def)
  qed
qed

lemma escapeMentions_idem: "escapeMentions (escapeMentions s) = escapeMentions s"
proof (induction s rule: escapeMentions.induct)
  case 1
  show ?case by simp
next
  case (2 c cs)
  consider (every) "c = CHR ''@''" "prefix ''everyone'' cs"
    | (here) "c = CHR ''@''" "\<not> prefix ''everyone'' cs" "prefix ''here'' cs"
    | (copy) "\<not> (c = CHR ''@'' \<and> prefix ''everyone'' cs)" "\<not> (c = CHR ''@'' \<and> prefix ''here'' cs)"
    by blast
  then show ?case
  proof cases
    case every
    have "escapeMentions (''everyone'' @ escapeMentions (drop 8 cs))
            = ''everyone'' @ escapeMentions (escapeMentions (drop 8 cs))"
      by (rule escapeMentions_append_no_at) simp
    with every "2.IH"(1) show ?thesis
      by (simp add: zwsp_def)
  next
    case here
    have "escapeMentions (''here'' @ escapeMentions (drop 4 cs))
            = ''here'' @ escapeMentions (escapeMentions (drop 4 cs))"
      by (rule escapeMentions_append_no_at) simp
    with here "2.IH"(2) show ?thesis
      by (simp add: zwsp_def)
  next
    case copy
    have e: "prefix ''everyone'' (escapeMentions cs) \<longleftrightarrow> prefix ''everyone'' cs"
      by (rule prefix_escapeMentions) simp
    have h: "prefix ''here'' (escapeMentions cs) \<longleftrightarrow> prefix ''here'' cs"
      by (rule prefix_escapeMentions) simp
    from copy "2.IH"(3) e h show ?thesis
      by auto
  qed
qed

lemma no_bare_everyone: "\<not> sublist ''@everyone'' (escapeMentions s)"
proof (induction s rule: escapeMentions.induct)
  case 1
  show ?case by simp
next
  case (2 c cs)
  have e: "prefix ''everyone'' (escapeMentions cs) \<longleftrightarrow> prefix ''everyone'' cs"
    by (rule prefix_escapeMentions) simp
  from "2.IH" e show ?case
    by (auto simp: sublist_Cons_right zwsp_def)
qed

lemma no_bare_here: "\<not> sublist ''@here'' (escapeMentions s)"
proof (induction s rule: escapeMentions.induct)
  case 1
  show ?case by simp
next
  case (2 c cs)
  have h: "prefix ''here'' (escapeMentions cs) \<longleftrightarrow> prefix ''here'' cs"
    by (rule prefix_escapeMentions) simp
  from "2.IH" h show ?case
    by (auto simp: sublist_Cons_right zwsp_def)
qed

lemma insert_zero_width_append_no_at:
  "CHR ''@'' \<notin> set xs \<Longrightarrow> insert_zero_width (xs @ ys) = xs @ insert_zero_width ys"
  by (induction xs) auto

lemma escapeMentions_inserts: "escapeMentions s = insert_zero_width s"
proof (induction s rule: escapeMentions.induct)
  case 1
  show ?case by simp
next
  case (2 c cs)
  consider (every) "c = CHR ''@''" "prefix ''everyone'' cs"
    | (here) "c = CHR ''@''" "\<not> prefix ''everyone'' cs" "prefix ''here'' cs"
    | (copy) "\<not> (c = CHR ''@'' \<and> prefix ''everyone'' cs)" "\<not> (c = CHR ''@'' \<and> prefix ''here'' cs)"
    by blast
  then show ?case
  proof cases
    case every
    have cs: "cs = ''everyone'' @ drop 8 cs"
      using every(2) by (auto simp: prefix_def)
    have "insert_zero_width cs = ''everyone'' @ insert_zero_width (drop 8 cs)"
      by (subst cs, rule insert_zero_width_append_no_at) simp
    with every "2.IH"(1) show ?thesis by simp
  next
    case here
    have cs: "cs = ''here'' @ drop 4 cs"
      using here(3) by (auto simp: prefix_def)
    have "insert_zero_width cs = ''here'' @ insert_zero_width (drop 4 cs)"
      by (subst cs, rule insert_zero_width_append_no_at) simp
    with here "2.IH"(2) show ?thesis by simp
  next
    case copy
    with "2.IH"(3) show ?thesis by auto
  qed
qed

lemma escapeMentions_unaffected:
  "\<not> sublist ''@everyone'' s \<Longrightarrow> \<not> sublist ''@here'' s \<Longrightarrow> escapeMentions s = s"
proof (induction s rule: escapeMentions.induct)
  case 1
  show ?case by simp
next
  case (2 c cs)
  from "2.prems" have "\<not> (c = CHR ''@'' \<and> prefix ''everyone'' cs)"
    "\<not> (c = CHR ''@'' \<and> prefix ''here'' cs)"
    "\<not> sublist ''@everyone'' cs" "\<not> sublist ''@here'' cs"
    by (auto simp: sublist_Cons_right)
  with "2.IH"(3) show ?case by auto
qed

text \<open>
  Switching the option \<^verbatim>\<open>disableEveryone\<close> changes nothing in \<^verbatim>\<open>makeContent\<close> but
  whether the replacement is applied.
\<close>

lemma formatContent_escaped:
  assumes "truthy (disableEveryone m)"
  shows "formatContent U m =
           map_sum id (map_text escapeMentions)
             (formatContent U
                (m\<lparr> options := AList.update ''disableEveryone'' (JBool False) (options m) \<rparr>))"
proof -
  let ?m' = "m\<lparr> options := AList.update ''disableEveryone'' (JBool False) (options m) \<rparr>"
  have f: "k \<noteq> ''disableEveryone'' \<Longrightarrow> field (options ?m') k = field (options m) k" for k
    by (simp add: field_update_other)
  have d: "\<not> truthy (disableEveryone ?m')"
    by (simp add: disableEveryone_def field_update_same)
  have s: "isSplit (options ?m') = isSplit (options m)" "isCode (options ?m') = isCode (options m)"
    "contentString U (options ?m') = contentString U (options m)"
    "splitOptionsOf (options ?m') = splitOptionsOf (options m)"
    "codeName (options ?m') = codeName (options m)"
    using f by (simp_all add: isSplit_def isCode_def contentString_def splitOptionsOf_def
        codeName_def)
  have ms: "mentionStep U ?m' so = mentionStep U m so" for so
    using f[of "''reply''"] s(1) by (simp add: mentionStep_def isUser_def Let_def split: sum.splits)
  have fs: "fenceStep U (options ?m') mp c so = fenceStep U (options m) mp c so" for mp c so
    using s unfolding fenceStep_def by simp
  show ?thesis
    unfolding formatContent_def ms fs s
    using assms d
    by (auto simp: Let_def split: sum.splits prod.splits)
qed

text \<open>
  Claim C8. When the effective \<^verbatim>\<open>disableEveryone\<close> (the option, the client's default
  when the option is undefined) is truthy, the text \<^verbatim>\<open>makeContent\<close> produces, returned
  or handed to the splitter, is the text it produces with the option off, passed
  through the replacement; it has no occurrence of \<^verbatim>\<open>@everyone\<close> or \<^verbatim>\<open>@here\<close> left and the
  replacement would not change it again. The replacement is idempotent, puts a
  zero-width space behind the \<^verbatim>\<open>@\<close> of every occurrence of \<^verbatim>\<open>@everyone\<close> or \<^verbatim>\<open>@here\<close> and
  changes nothing else, leaves a string without such an occurrence as it is, and is
  case-sensitive: \<^verbatim>\<open>@Everyone hi\<close> stays, \<^verbatim>\<open>@everyone hi\<close> gets the zero-width space.
  (The replacement comes before the splitting: what a splitter puts around its pieces,
  the \<^verbatim>\<open>prepend\<close> and \<^verbatim>\<open>append\<close> of the split options, does not pass through it.)
\<close>

theorem makeContent_escapes_mentions:
  assumes "truthy (disableEveryone m)"
  shows "formatContent U m =
           map_sum id (map_text escapeMentions)
             (formatContent U
                (m\<lparr> options := AList.update ''disableEveryone'' (JBool False) (options m) \<rparr>))
       \<and> (\<forall>f. formatContent U m = Inr f \<longrightarrow>
             \<not> sublist ''@everyone'' (text_of f) \<and> \<not> sublist ''@here'' (text_of f)
             \<and> escapeMentions (text_of f) = text_of f)
       \<and> (\<forall>v. \<not> isSplit (options m) \<and> makeContent U m = Inr v \<longrightarrow>
             (\<exists>s. v = JStr s \<and> \<not> sublist ''@everyone'' s \<and> \<not> sublist ''@here'' s))
       \<and> (\<forall>s. escapeMentions (escapeMentions s) = escapeMentions s
               \<and> escapeMentions s = insert_zero_width s
               \<and> \<not> sublist ''@everyone'' (escapeMentions s)
               \<and> \<not> sublist ''@here'' (escapeMentions s)
               \<and> (\<not> sublist ''@everyone'' s \<and> \<not> sublist ''@here'' s \<longrightarrow> escapeMentions s = s))
       \<and> escapeMentions ''@Everyone hi'' = ''@Everyone hi''
       \<and> escapeMentions ''@everyone hi'' = ''@'' @ zwsp @ ''everyone hi''"
proof -
  have clean: "\<not> sublist ''@everyone'' (text_of f) \<and> \<not> sublist ''@here'' (text_of f)
      \<and> escapeMentions (text_of f) = text_of f"
    if "formatContent U m = Inr f" for f
  proof -
    from that formatContent_escaped[OF assms, of U]
    obtain g where "f = map_text escapeMentions g"
      by (auto simp: map_sum_def split: sum.splits)
    then show ?thesis
      by (cases g) (simp_all add: no_bare_everyone no_bare_here escapeMentions_idem)
  qed
  have whole: "\<exists>s. v = JStr s \<and> \<not> sublist ''@everyone'' s \<and> \<not> sublist ''@here'' s"
    if "\<not> isSplit (options m)" and "makeContent U m = Inr v" for v
  proof -
    from that(2) obtain f where f: "formatContent U m = Inr f"
      by (auto simp: makeContent_def split: sum.splits)
    from that(1) f have "\<exists>s. f = Whole s"
      by (auto simp: formatContent_def Let_def split: sum.splits prod.splits if_splits)
    then obtain s where "f = Whole s" by blast
    with f that(2) clean[OF f] show ?thesis
      by (auto simp: makeContent_def)
  qed
  show ?thesis
    using formatContent_escaped[OF assms, of U] clean whole
    by (simp add: escapeMentions_idem escapeMentions_inserts[symmetric] no_bare_everyone
        no_bare_here escapeMentions_unaffected)
qed

theorem makeContent_escapes_mentions_witness:
  "truthy (disableEveryone
             \<lparr> target = text_channel,
               options = [(''content'', JStr ''@everyone and @here, @Everyone''),
                          (''disableEveryone'', JBool True)] \<rparr>)
   \<and> makeContent spec_env
         \<lparr> target = text_channel,
           options = [(''content'', JStr ''@everyone and @here, @Everyone''),
                      (''disableEveryone'', JBool True)] \<rparr>
       = Inr (JStr (''@'' @ zwsp @ ''everyone and @'' @ zwsp @ ''here, @Everyone''))
   \<and> \<not> sublist ''@everyone'' (''@'' @ zwsp @ ''everyone and @'' @ zwsp @ ''here, @Everyone'')
   \<and> \<not> sublist ''@here'' (''@'' @ zwsp @ ''everyone and @'' @ zwsp @ ''here, @Everyone'')
   \<and> truthy (disableEveryone
             \<lparr> target = text_channel\<lparr> clientDisableEveryone := JBool True \<rparr>,
               options = [(''content'', JStr ''hi @here'')] \<rparr>)
   \<and> makeContent spec_env
         \<lparr> target = text_channel\<lparr> clientDisableEveryone := JBool True \<rparr>,
           options = [(''content'', JStr ''hi @here'')] \<rparr>
       = Inr (JStr (''hi @'' @ zwsp @ ''here''))"
proof -
  let ?m = "\<lparr> target = text_channel,
              options = [(''content'', JStr ''@everyone and @here, @Everyone''),
                         (''disableEveryone'', JBool True)] \<rparr>"
  let ?s = "''@'' @ zwsp @ ''everyone and @'' @ zwsp @ ''here, @Everyone''"
  have t: "truthy (disableEveryone ?m)"
    by (simp add: disableEveryone_def field_def)
  have ns: "\<not> isSplit (options ?m)"
    by (simp add: isSplit_def field_def)
  have r: "makeContent spec_env ?m = Inr (JStr ?s)"
    by (simp add: content_defs spec_env_simps)
  from makeContent_escapes_mentions[OF t, of spec_env] ns r
  have clean: "\<not> sublist ''@everyone'' ?s \<and> \<not> sublist ''@here'' ?s"
    by blast
  have t2: "truthy (disableEveryone
             \<lparr> target = text_channel\<lparr> clientDisableEveryone := JBool True \<rparr>,
               options = [(''content'', JStr ''hi @here'')] \<rparr>)"
    by (simp add: disableEveryone_def field_def)
  have r2: "makeContent spec_env
         \<lparr> target = text_channel\<lparr> clientDisableEveryone := JBool True \<rparr>,
           options = [(''content'', JStr ''hi @here'')] \<rparr>
       = Inr (JStr (''hi @'' @ zwsp @ ''here''))"
    by (simp add: content_defs spec_env_simps)
  show ?thesis
    using t r clean t2 r2 by blast
qed

subsection \<open>The mention prefix and the splitter\<close>

lemma concat_lines_from: "concat (lines_from s line) = line @ s"
  by (induction s arbitrary: line) simp_all

lemma lines_from_newlines: "\<forall>l\<in>set (butlast (lines_from s line)). suffix nl l"
proof (induction s arbitrary: line)
  case Nil
  show ?case by simp
next
  case (Cons c cs)
  show ?case
  proof (cases "c = CHR 0x0A")
    case True
    have "suffix nl (line @ [c])"
      using True by (simp add: nl_def)
    with Cons[of "[]"] True show ?thesis
      by (auto simp: butlast.simps split: if_splits)
  next
    case False
    with Cons[of "line @ [c]"] show ?thesis by simp
  qed
qed

lemma pack_pieces:
  assumes "pack room ls piece = Inr ps"
    and "\<forall>l\<in>set (butlast ls). suffix nl l"
    and "ls \<noteq> [] \<longrightarrow> piece = [] \<or> suffix nl piece"
  shows "concat ps = piece @ concat ls \<and> (\<forall>p\<in>set (butlast ps). suffix nl p)"
  using assms
proof (induction ls arbitrary: piece ps)
  case Nil
  then show ?case by (auto split: if_splits)
next
  case (Cons l rest)
  have rest_ok: "\<forall>x\<in>set (butlast rest). suffix nl x"
    using Cons.prems(2) by (auto split: if_splits)
  have l_ok: "rest \<noteq> [] \<longrightarrow> suffix nl l"
    using Cons.prems(2) by auto
  from Cons.prems(1) have fits: "\<not> room < length l"
    by (auto split: if_splits)
  show ?case
  proof (cases "piece = [] \<or> length piece + length l \<le> room")
    case True
    with fits Cons.prems(1) have p: "pack room rest (piece @ l) = Inr ps" by simp
    have "rest \<noteq> [] \<longrightarrow> piece @ l = [] \<or> suffix nl (piece @ l)"
      using l_ok by (auto simp: suffix_def)
    from Cons.IH[OF p rest_ok this] show ?thesis by simp
  next
    case False
    with fits Cons.prems(1) obtain pieces where p: "pack room rest l = Inr pieces"
      and ps: "ps = piece # pieces"
      by (auto split: sum.splits)
    have "rest \<noteq> [] \<longrightarrow> l = [] \<or> suffix nl l"
      using l_ok by simp
    from Cons.IH[OF p rest_ok this]
    have ih: "concat pieces = l @ concat rest" "\<forall>x\<in>set (butlast pieces). suffix nl x"
      by simp_all
    have "suffix nl piece"
      using Cons.prems(3) False by simp
    with ih ps show ?thesis
      by (auto split: if_splits)
  qed
qed

lemma spec_splitMessage_newlines: "splits_at_newlines spec_splitMessage"
  unfolding splits_at_newlines_def
proof (intro allI impI)
  fix body so r
  assume a: "spec_splitMessage body so = Inr r"
  define room where
    "room = (case field so ''maxLength'' of JNum n \<Rightarrow> nat n | _ \<Rightarrow> 2000)
              - (length (affix so ''prepend'') + length (affix so ''append''))"
  from a obtain pieces where p: "pack room (lines_from body []) [] = Inr pieces"
    and r: "r = JArr (map (\<lambda>p. JStr (affix so ''prepend'' @ p @ affix so ''append'')) pieces)"
    by (auto simp: spec_splitMessage_def Let_def room_def split: sum.splits)
  from pack_pieces[OF p lines_from_newlines]
  have "concat pieces = body" "\<forall>x\<in>set (butlast pieces). suffix nl x"
    by (simp_all add: concat_lines_from)
  with r show "\<exists>pieces. r = JArr (map (\<lambda>p. JStr (affix so ''prepend'' @ p @ affix so ''append'')) pieces)
        \<and> concat pieces = body \<and> (\<forall>p\<in>set (butlast pieces). suffix nl p)"
    by blast
qed

text \<open>A mention token of an id made of digits passes the replacement unchanged.\<close>

lemma escapeMentions_mention_prefix:
  assumes "set i \<subseteq> set ''0123456789''"
  shows "escapeMentions (mention_prefix b i @ rest) = mention_prefix b i @ escapeMentions rest"
proof -
  have no_at: "CHR ''@'' \<notin> set i"
    using assms by auto
  have tail: "escapeMentions (i @ ''>, '' @ rest) = i @ ''>, '' @ escapeMentions rest"
    using escapeMentions_append_no_at[OF no_at, of "''>, '' @ rest"] by simp
  have ne: "\<not> prefix ''everyone'' (i @ ''>, '' @ rest)" "\<not> prefix ''here'' (i @ ''>, '' @ rest)"
    using assms by (cases i; auto)+
  show ?thesis
    using tail ne by (simp add: mention_prefix_def)
qed

lemma mention_prefix_no_newline:
  "set i \<subseteq> set ''0123456789'' \<Longrightarrow> CHR 0x0A \<notin> set (mention_prefix b i)"
  by (auto simp: mention_prefix_def)

text \<open>
  The first of the pieces of a text that are cut at newlines holds the whole of a
  beginning of the text that has no newline.
\<close>

lemma first_piece_holds:
  assumes "concat pieces = mp @ rest" and "mp \<noteq> []"
    and "\<forall>p\<in>set (butlast pieces). suffix nl p"
    and "CHR 0x0A \<notin> set mp"
  shows "\<exists>p ps tl. pieces = p # ps \<and> p = mp @ tl"
proof (cases pieces)
  case Nil
  with assms(1,2) show ?thesis by simp
next
  case (Cons p ps)
  show ?thesis
  proof (cases "ps = []")
    case True
    with Cons assms(1) show ?thesis by simp
  next
    case False
    with Cons assms(3) have "suffix nl p" by simp
    then have n: "CHR 0x0A \<in> set p"
      by (auto simp: suffix_def nl_def)
    from Cons assms(1) have "prefix p (mp @ rest)"
      by (metis concat.simps(2) prefixI)
    then have "prefix p mp \<or> (\<exists>us. p = mp @ us)"
      by (auto simp: prefix_append)
    moreover have "\<not> prefix p mp"
      using n assms(4) by (auto dest: set_mono_prefix)
    ultimately show ?thesis using Cons by blast
  qed
qed

text \<open>
  Claim C10. The message is split and not fenced, and a mention prefix is made (there
  is a reply, the target is neither a user nor a member nor of type \<^verbatim>\<open>'dm'\<close>, and the id
  is resolved). Then \<^verbatim>\<open>makeContent\<close> puts the prefix before the \<^verbatim>\<open>prepend\<close> of the split
  options and also before the content it hands to the splitter. For an id made of
  digits the prefix stands unchanged at the head of that text, whether mentions are
  escaped or not; and with a splitter that puts every piece between the configured
  prepend and append and cuts at newlines only, the first chunk begins with the prefix,
  the caller's prepend, and the prefix again.
\<close>

theorem mention_prefix_twice:
  assumes "isSplit (options m)" and "\<not> isCode (options m)"
    and "truthy (field (options m) ''reply'')" and "\<not> isUser m"
    and "ttype (target m) \<noteq> JStr ''dm''"
    and "resolveID U (field (options m) ''reply'') = Inr ident"
    and "mp = mention_prefix
                (instanceof (field (options m) ''reply'') GuildMember
                 \<and> truthy (field (ownProps (field (options m) ''reply'')) ''nickname''))
                (str U ident)"
    and "pre = str U (js_or (field (splitOptionsOf (options m)) ''prepend'') (JStr []))"
  shows "(\<exists>so. formatContent U m =
              Inr (ToSplit
                    ((if truthy (disableEveryone m) then escapeMentions else (\<lambda>s. s))
                       (mp @ contentString U (options m)))
                    so)
            \<and> field so ''prepend'' = JStr (mp @ pre))
       \<and> (set (str U ident) \<subseteq> set ''0123456789'' \<longrightarrow>
            (\<exists>so. formatContent U m =
                Inr (ToSplit
                      (mp @ (if truthy (disableEveryone m) then escapeMentions else (\<lambda>s. s))
                              (contentString U (options m)))
                      so)
              \<and> field so ''prepend'' = JStr (mp @ pre))
            \<and> (splits_at_newlines (splitMessage U) \<longrightarrow>
                 (\<forall>r. makeContent U m = Inr r \<longrightarrow>
                    (\<exists>rest chunks. r = JArr (JStr (mp @ pre @ mp @ rest) # chunks)))))"
proof -
  define so where
    "so = AList.update ''prepend'' (JStr (mp @ pre)) (splitOptionsOf (options m))"
  define esc where
    "esc = (if truthy (disableEveryone m) then escapeMentions else (\<lambda>s. s))"
  have mp_ne: "mp \<noteq> []"
    by (simp add: assms(7) mention_prefix_not_empty)
  have ms: "mentionStep U m (splitOptionsOf (options m)) = Inr (mp, so)"
    using assms(1,6) by (simp add: mentionStep_eligible[OF assms(3,4,5)] assms(7,8) so_def)
  have f: "formatContent U m = Inr (ToSplit (esc (mp @ contentString U (options m))) so)"
    using assms(1,2) mp_ne by (simp add: formatContent_def ms fenceStep_def esc_def)
  have pre: "field so ''prepend'' = JStr (mp @ pre)"
    by (simp add: so_def field_update_same)
  have digits: "esc (mp @ contentString U (options m)) = mp @ esc (contentString U (options m))"
    if "set (str U ident) \<subseteq> set ''0123456789''"
    using escapeMentions_mention_prefix[OF that] by (simp add: esc_def assms(7))
  have chunks: "\<exists>rest chunks. r = JArr (JStr (mp @ pre @ mp @ rest) # chunks)"
    if d: "set (str U ident) \<subseteq> set ''0123456789''"
      and c: "splits_at_newlines (splitMessage U)" and r: "makeContent U m = Inr r" for r
  proof -
    have "splitMessage U (mp @ esc (contentString U (options m))) so = Inr r"
      using r by (simp add: makeContent_def f digits[OF d])
    with c obtain pieces where
      r': "r = JArr (map (\<lambda>p. JStr (affix so ''prepend'' @ p @ affix so ''append'')) pieces)"
      and cat: "concat pieces = mp @ esc (contentString U (options m))"
      and cut: "\<forall>p\<in>set (butlast pieces). suffix nl p"
      unfolding splits_at_newlines_def by blast
    have "CHR 0x0A \<notin> set mp"
      using mention_prefix_no_newline[OF d] by (simp add: assms(7))
    from first_piece_holds[OF cat mp_ne cut this]
    obtain p ps tl where "pieces = p # ps" "p = mp @ tl" by blast
    with r' have "r = JArr (JStr (mp @ pre @ mp @ tl @ affix so ''append'')
                          # map (\<lambda>p. JStr (affix so ''prepend'' @ p @ affix so ''append'')) ps)"
      by (simp add: affix_def pre)
    then show ?thesis by blast
  qed
  show ?thesis
    using f pre digits chunks unfolding esc_def by (intro conjI impI allI) auto
qed

theorem mention_prefix_twice_witness:
  "isSplit (options \<lparr> target = text_channel,
                       options = [(''content'', JStr ''hi''),
                                  (''reply'', JObj User [(''id'', JStr ''42'')]),
                                  (''split'', JBool True)] \<rparr>)
   \<and> \<not> isCode (options \<lparr> target = text_channel,
                       options = [(''content'', JStr ''hi''),
                                  (''reply'', JObj User [(''id'', JStr ''42'')]),
                                  (''split'', JBool True)] \<rparr>)
   \<and> truthy (JObj User [(''id'', JStr ''42'')])
   \<and> \<not> isUser \<lparr> target = text_channel,
                  options = [(''content'', JStr ''hi''),
                             (''reply'', JObj User [(''id'', JStr ''42'')]),
                             (''split'', JBool True)] \<rparr>
   \<and> ttype text_channel \<noteq> JStr ''dm''
   \<and> resolveID spec_env (JObj User [(''id'', JStr ''42'')]) = Inr (JStr ''42'')
   \<and> set (str spec_env (JStr ''42'')) \<subseteq> set ''0123456789''
   \<and> splits_at_newlines (splitMessage spec_env)
   \<and> formatContent spec_env
        \<lparr> target = text_channel,
          options = [(''content'', JStr ''hi''),
                     (''reply'', JObj User [(''id'', JStr ''42'')]),
                     (''split'', JBool True)] \<rparr>
       = Inr (ToSplit ''<@42>, hi'' [(''prepend'', JStr ''<@42>, '')])
   \<and> makeContent spec_env
        \<lparr> target = text_channel,
          options = [(''content'', JStr ''hi''),
                     (''reply'', JObj User [(''id'', JStr ''42'')]),
                     (''split'', JBool True)] \<rparr>
       = Inr (JArr [JStr ''<@42>, <@42>, hi''])
   \<and> (\<exists>rest chunks.
         JArr [JStr ''<@42>, <@42>, hi''] = JArr (JStr (''<@42>, '' @ [] @ ''<@42>, '' @ rest) # chunks))"
proof -
  let ?m = "\<lparr> target = text_channel,
              options = [(''content'', JStr ''hi''),
                         (''reply'', JObj User [(''id'', JStr ''42'')]),
                         (''split'', JBool True)] \<rparr>"
  have h1: "isSplit (options ?m)" and h2: "\<not> isCode (options ?m)"
    by (simp_all add: isSplit_def isCode_def field_def)
  have h3: "truthy (field (options ?m) ''reply'')" and h4: "\<not> isUser ?m"
    and h5: "ttype (target ?m) \<noteq> JStr ''dm''"
    by (simp_all add: field_def isUser_def text_channel_def)
  have h6: "resolveID spec_env (field (options ?m) ''reply'') = Inr (JStr ''42'')"
    by (simp add: field_def spec_env_def)
  have h7: "''<@42>, '' = mention_prefix
                (instanceof (field (options ?m) ''reply'') GuildMember
                 \<and> truthy (field (ownProps (field (options ?m) ''reply'')) ''nickname''))
                (str spec_env (JStr ''42''))"
    by (simp add: field_def mention_prefix_def str_def)
  have h8: "[] = str spec_env (js_or (field (splitOptionsOf (options ?m)) ''prepend'') (JStr []))"
    by (simp add: field_def splitOptionsOf_def isSplit_def assign1_def js_or_def str_def)
  have d: "set (str spec_env (JStr ''42'')) \<subseteq> set ''0123456789''"
    by (simp add: str_def)
  have c: "splits_at_newlines (splitMessage spec_env)"
    by (simp add: spec_env_def spec_splitMessage_newlines)
  have f: "formatContent spec_env ?m
       = Inr (ToSplit ''<@42>, hi'' [(''prepend'', JStr ''<@42>, '')])"
    by (simp add: content_defs js_or_def spec_env_simps assign1_def)
  have "makeContent spec_env ?m
          = splitMessage spec_env ''<@42>, hi'' [(''prepend'', JStr ''<@42>, '')]"
    by (simp add: makeContent_def f)
  then have r: "makeContent spec_env ?m = Inr (JArr [JStr ''<@42>, <@42>, hi''])"
    by (simp add: spec_env_def spec_splitMessage_def affix_def field_def)
  from mention_prefix_twice[OF h1 h2 h3 h4 h5 h6 h7 h8] d c r
  have "\<exists>rest chunks.
         JArr [JStr ''<@42>, <@42>, hi''] = JArr (JStr (''<@42>, '' @ [] @ ''<@42>, '' @ rest) # chunks)"
    by blast
  with h1 h2 h3 h4 h5 h6 d c f r show ?thesis
    by (simp add: field_def text_channel_def)
qed

section \<open>Properties of \<^verbatim>\<open>resolveFiles\<close>\<close>

subsection \<open>The order of discovery\<close>

lemma embedFiles_loop_concat:
  "embedFiles_loop likes acc = Inr refs \<Longrightarrow> refs = acc @ concat (map embedded_files likes)"
proof (induction likes arbitrary: acc)
  case Nil
  then show ?case by simp
next
  case (Cons like rest)
  from Cons.prems show ?case
    by (auto simp: embedded_files_def members_def split: sum.splits if_splits dest!: Cons.IH)
qed

lemma fileLikes_order:
  assumes "fileLikes m = Inr refs"
  shows "\<exists>likes. embedLikes m = Inr likes
           \<and> refs = members (field (options m) ''files'') @ concat (map embedded_files likes)"
proof -
  from assms obtain likes own where l: "embedLikes m = Inr likes"
    and o: "(if truthy (field (options m) ''files'') then spread (field (options m) ''files'')
            else Inr []) = Inr own"
    and r: "embedFiles_loop likes own = Inr refs"
    by (auto simp: fileLikes_def split: sum.splits)
  from o have "own = members (field (options m) ''files'')"
    by (auto simp: members_def split: if_splits)
  with l embedFiles_loop_concat[OF r] show ?thesis by simp
qed

subsection \<open>\<^verbatim>\<open>Promise.all\<close> keeps the order of its input\<close>

lemma collect_map_Some: "collect (map Some vs) = Some vs"
  by (induction vs) simp_all

lemma collect_Some_D: "collect slots = Some vs \<Longrightarrow> slots = map Some vs"
proof (induction slots arbitrary: vs)
  case Nil
  then show ?case by simp
next
  case (Cons s slots)
  show ?case
  proof (cases s)
    case None
    with Cons.prems show ?thesis by simp
  next
    case (Some v)
    with Cons.prems obtain ws where "collect slots = Some ws" "vs = v # ws"
      by (auto split: option.splits)
    with Cons.IH[of ws] Some show ?thesis by simp
  qed
qed

lemma collect_Some: "collect slots = Some vs \<longleftrightarrow> slots = map Some vs"
  using collect_Some_D collect_map_Some by blast

lemma collect_None: "collect slots = None \<longleftrightarrow> None \<in> set slots"
proof (induction slots)
  case Nil
  show ?case by simp
next
  case (Cons s slots)
  then show ?case
    by (cases s) (auto split: option.splits)
qed

text \<open>
  In whatever order the promises settle: if the result fulfils, its values are the
  values of the input promises, in the order of the input.
\<close>

lemma settle_order:
  assumes "settle sched ps slots = Fulfilled vs"
    and "length slots = length ps"
    and "\<forall>i<length ps. \<forall>v. slots ! i = Some v \<longrightarrow> ps ! i = Inr v"
  shows "map Inr vs = ps"
  using assms
proof (induction sched arbitrary: slots)
  case Nil
  then show ?case by simp
next
  case (Cons i sched)
  show ?case
  proof (cases "i < length ps")
    case False
    with Cons show ?thesis by simp
  next
    case True
    show ?thesis
    proof (cases "ps ! i")
      case (Inl e)
      with True Cons.prems(1) show ?thesis by simp
    next
      case (Inr v)
      let ?slots = "slots[i := Some v]"
      have len: "length ?slots = length ps"
        using Cons.prems(2) by simp
      have ok: "\<forall>j<length ps. \<forall>w. ?slots ! j = Some w \<longrightarrow> ps ! j = Inr w"
        using Cons.prems(2,3) Inr True by (auto simp: nth_list_update)
      show ?thesis
      proof (cases "collect ?slots")
        case None
        with True Inr Cons.prems(1) have "settle sched ps ?slots = Fulfilled vs" by simp
        from Cons.IH[OF this len ok] show ?thesis .
      next
        case (Some ws)
        with True Inr Cons.prems(1) have "ws = vs" by simp
        with Some have eq: "?slots = map Some vs"
          by (simp add: collect_Some)
        from eq len have lv: "length vs = length ps"
          by (metis length_map)
        show ?thesis
        proof (rule nth_equalityI)
          show "length (map Inr vs) = length ps" using lv by simp
        next
          fix j assume "j < length (map Inr vs)"
          then have j: "j < length ps" using lv by simp
          then have "?slots ! j = Some (vs ! j)"
            using eq lv by simp
          with ok j have "ps ! j = Inr (vs ! j)" by blast
          with j lv show "map Inr vs ! j = ps ! j" by simp
        qed
      qed
    qed
  qed
qed

text \<open>
  When every promise fulfils and every one of them settles at some time, the result
  fulfils.
\<close>

lemma settle_fulfils:
  assumes "length slots = length ds"
    and "None \<in> set slots"
    and "\<forall>i<length ds. slots ! i = None \<longrightarrow> i \<in> set sched"
  shows "\<exists>vs. settle sched (map Inr ds) slots = Fulfilled vs"
  using assms
proof (induction sched arbitrary: slots)
  case Nil
  from Nil(2) obtain i where "i < length slots" "slots ! i = None"
    by (metis in_set_conv_nth)
  with Nil(1,3) show ?case by auto
next
  case (Cons i sched)
  show ?case
  proof (cases "i < length ds")
    case False
    have "\<forall>j<length ds. slots ! j = None \<longrightarrow> j \<in> set sched"
      using Cons.prems(3) False by auto
    from Cons.IH[OF Cons.prems(1,2) this] False show ?thesis by simp
  next
    case True
    let ?slots = "slots[i := Some (ds ! i)]"
    show ?thesis
    proof (cases "collect ?slots")
      case (Some ws)
      with True show ?thesis by simp
    next
      case None
      then have n: "None \<in> set ?slots" by (simp add: collect_None)
      have len: "length ?slots = length ds" using Cons.prems(1) by simp
      have cover: "\<forall>j<length ds. ?slots ! j = None \<longrightarrow> j \<in> set sched"
      proof (intro allI impI)
        fix j assume j: "j < length ds" and n: "?slots ! j = None"
        from n j True Cons.prems(1) have "j \<noteq> i" "slots ! j = None"
          by (auto simp: nth_list_update split: if_splits)
        with Cons.prems(3) j show "j \<in> set sched" by auto
      qed
      from Cons.IH[OF len n cover] None True show ?thesis by simp
    qed
  qed
qed

lemma promise_all_order:
  "promise_all sched ps = Fulfilled vs \<Longrightarrow> map Inr vs = ps"
  by (cases "ps = []") (auto simp: promise_all_def dest: settle_order)

lemma promise_all_fulfils:
  assumes "\<forall>i<length ds. i \<in> set sched"
  shows "\<exists>vs. promise_all sched (map Inr ds) = Fulfilled vs"
proof (cases "ds = []")
  case True
  then show ?thesis by (simp add: promise_all_def)
next
  case False
  have "\<exists>vs. settle sched (map Inr ds) (replicate (length ds) None) = Fulfilled vs"
    using assms False by (intro settle_fulfils) auto
  with False show ?thesis by (simp add: promise_all_def)
qed

text \<open>
  Claim C9. Where \<^verbatim>\<open>resolveFiles\<close> collects its references without throwing, they are
  the members of \<^verbatim>\<open>options.files\<close> first and then, for each rich-content item in the
  order of the payload (\<^verbatim>\<open>options.embeds\<close> for a webhook, the one \<^verbatim>\<open>options.embed\<close>
  otherwise), that item's \<^verbatim>\<open>files\<close>. In whatever order the resolutions settle, a
  fulfilled result holds for every reference, in that order of discovery, the descriptor
  \<^verbatim>\<open>resolveFile\<close> made of it; and the result does fulfil when every resolution fulfils
  and every one of them settles.
\<close>

theorem resolveFiles_order:
  assumes "fileLikes m = Inr refs"
  shows "(\<exists>likes. embedLikes m = Inr likes
            \<and> refs = members (field (options m) ''files'') @ concat (map embedded_files likes))
       \<and> (\<forall>sched ds. resolveFiles U sched m = Inr (Fulfilled ds) \<longrightarrow>
             map Inr ds = map (resolveFile U) refs)
       \<and> (\<forall>sched. (\<forall>f\<in>set refs. \<exists>d. resolveFile U f = Inr d)
                   \<and> (\<forall>i<length refs. i \<in> set sched) \<longrightarrow>
             (\<exists>ds. resolveFiles U sched m = Inr (Fulfilled ds)))"
proof (intro conjI allI impI)
  show "\<exists>likes. embedLikes m = Inr likes
          \<and> refs = members (field (options m) ''files'') @ concat (map embedded_files likes)"
    using assms by (rule fileLikes_order)
next
  fix sched ds
  assume "resolveFiles U sched m = Inr (Fulfilled ds)"
  then have "promise_all sched (map (resolveFile U) refs) = Fulfilled ds"
    using assms by (simp add: resolveFiles_def)
  then show "map Inr ds = map (resolveFile U) refs"
    by (rule promise_all_order)
next
  fix sched
  assume a: "(\<forall>f\<in>set refs. \<exists>d. resolveFile U f = Inr d) \<and> (\<forall>i<length refs. i \<in> set sched)"
  then have "\<forall>f\<in>set refs. resolveFile U f = Inr (projr (resolveFile U f))"
    by auto
  then have ps: "map (resolveFile U) refs = map Inr (map (\<lambda>f. projr (resolveFile U f)) refs)"
    by simp
  have "\<exists>vs. promise_all sched (map Inr (map (\<lambda>f. projr (resolveFile U f)) refs)) = Fulfilled vs"
    using a by (intro promise_all_fulfils) simp
  then show "\<exists>ds. resolveFiles U sched m = Inr (Fulfilled ds)"
    using assms by (simp add: resolveFiles_def ps)
qed

theorem resolveFiles_order_witness:
  "fileLikes
     \<lparr> target = webhook,
       options = [(''files'', JArr [JStr ''img/a.png'']),
                  (''embeds'', JArr [JObj MessageEmbed
                     [(''files'', JArr [JStr ''b.png'',
                         JObj PlainObject [(''attachment'', JStr ''tmp/c.bin''),
                                           (''name'', JStr ''c.png'')]])]])] \<rparr>
     = Inr [JStr ''img/a.png'', JStr ''b.png'',
            JObj PlainObject [(''attachment'', JStr ''tmp/c.bin''), (''name'', JStr ''c.png'')]]
   \<and> resolveFiles spec_env [1, 0, 2]
       \<lparr> target = webhook,
         options = [(''files'', JArr [JStr ''img/a.png'']),
                    (''embeds'', JArr [JObj MessageEmbed
                       [(''files'', JArr [JStr ''b.png'',
                           JObj PlainObject [(''attachment'', JStr ''tmp/c.bin''),
                                             (''name'', JStr ''c.png'')]])]])] \<rparr>
     = Inr (Fulfilled
         [\<lparr> fd_attachment = JStr ''img/a.png'', fd_name = JStr ''a.png'',
             fd_file = JObj Buffer [(''source'', JStr ''img/a.png'')] \<rparr>,
          \<lparr> fd_attachment = JStr ''b.png'', fd_name = JStr ''b.png'',
             fd_file = JObj Buffer [(''source'', JStr ''b.png'')] \<rparr>,
          \<lparr> fd_attachment = JStr ''tmp/c.bin'', fd_name = JStr ''c.png'',
             fd_file = JObj Buffer [(''source'', JStr ''tmp/c.bin'')] \<rparr>])
   \<and> map Inr
        [\<lparr> fd_attachment = JStr ''img/a.png'', fd_name = JStr ''a.png'',
            fd_file = JObj Buffer [(''source'', JStr ''img/a.png'')] \<rparr>,
         \<lparr> fd_attachment = JStr ''b.png'', fd_name = JStr ''b.png'',
            fd_file = JObj Buffer [(''source'', JStr ''b.png'')] \<rparr>,
         \<lparr> fd_attachment = JStr ''tmp/c.bin'', fd_name = JStr ''c.png'',
            fd_file = JObj Buffer [(''source'', JStr ''tmp/c.bin'')] \<rparr>]
     = map (resolveFile spec_env)
        [JStr ''img/a.png'', JStr ''b.png'',
         JObj PlainObject [(''attachment'', JStr ''tmp/c.bin''), (''name'', JStr ''c.png'')]]"
proof -
  let ?m = "\<lparr> target = webhook,
       options = [(''files'', JArr [JStr ''img/a.png'']),
                  (''embeds'', JArr [JObj MessageEmbed
                     [(''files'', JArr [JStr ''b.png'',
                         JObj PlainObject [(''attachment'', JStr ''tmp/c.bin''),
                                           (''name'', JStr ''c.png'')]])]])] \<rparr>"
  let ?refs = "[JStr ''img/a.png'', JStr ''b.png'',
            JObj PlainObject [(''attachment'', JStr ''tmp/c.bin''), (''name'', JStr ''c.png'')]]"
  let ?ds = "[\<lparr> fd_attachment = JStr ''img/a.png'', fd_name = JStr ''a.png'',
             fd_file = JObj Buffer [(''source'', JStr ''img/a.png'')] \<rparr>,
          \<lparr> fd_attachment = JStr ''b.png'', fd_name = JStr ''b.png'',
             fd_file = JObj Buffer [(''source'', JStr ''b.png'')] \<rparr>,
          \<lparr> fd_attachment = JStr ''tmp/c.bin'', fd_name = JStr ''c.png'',
             fd_file = JObj Buffer [(''source'', JStr ''tmp/c.bin'')] \<rparr>]"
  have refs: "fileLikes ?m = Inr ?refs"
    by (simp add: fileLikes_def embedLikes_def isWebhook_def webhook_def field_def)
  have rf: "resolveFile spec_env (JStr ''img/a.png'')
              = Inr \<lparr> fd_attachment = JStr ''img/a.png'', fd_name = JStr ''a.png'',
                      fd_file = JObj Buffer [(''source'', JStr ''img/a.png'')] \<rparr>"
    "resolveFile spec_env (JStr ''b.png'')
              = Inr \<lparr> fd_attachment = JStr ''b.png'', fd_name = JStr ''b.png'',
                      fd_file = JObj Buffer [(''source'', JStr ''b.png'')] \<rparr>"
    "resolveFile spec_env
       (JObj PlainObject [(''attachment'', JStr ''tmp/c.bin''), (''name'', JStr ''c.png'')])
              = Inr \<lparr> fd_attachment = JStr ''tmp/c.bin'', fd_name = JStr ''c.png'',
                      fd_file = JObj Buffer [(''source'', JStr ''tmp/c.bin'')] \<rparr>"
    by (simp_all add: resolveFile_def attachment_and_name_def ownAttachment_def findName_def
        spec_env_def field_def)
  have run: "resolveFiles spec_env [1, 0, 2] ?m = Inr (Fulfilled ?ds)"
    by (simp add: resolveFiles_def refs rf promise_all_def)
  from resolveFiles_order[OF refs, of spec_env] run
  have "map Inr ?ds = map (resolveFile spec_env) ?refs"
    by blast
  with refs run show ?thesis by blast
qed

end
